theory Spec2Isabelle
  imports Main "HOL-Library.AList" "HOL-Library.Extended_Nat" "HOL-Library.Code_Target_Nat"
begin

section \<open>The guest of many-level (guest.js)\<close>

text \<open>
  The guest runs on one JavaScript event loop. Every method of guest.js is embedded as a
  function from the guest's state to its next state. Objects that are shared by reference
  (the iterator handles, each of which owns its request record and its ack message) live in
  an explicit store, \<open>heap\<close>, and are named by their address. What the guest does to
  the outside (events it emits, callbacks it calls, calls into objects it was given) is
  appended to the log \<open>events\<close>.
\<close>

subsection \<open>IdMap\<close>

text \<open>
  \<^verbatim>\<open>class IdMap { constructor () { this._map = new Map(); this._seq = 0 } ... }\<close>
  A JavaScript \<open>Map\<close> keeps its entries in insertion order; \<open>set\<close> on a key that
  is present replaces the value where it stands. That is an association list with
  \<open>AList.update\<close>, \<open>AList.delete\<close> and \<open>map_of\<close>.
\<close>

record 'a idmap =
  idmap_map :: "(nat \<times> 'a) list"
  idmap_seq :: nat

definition IdMap :: "'a idmap" where
  "IdMap = \<lparr>idmap_map = [], idmap_seq = 0\<rparr>"

definition idmap_size :: "'a idmap \<Rightarrow> nat" where
  "idmap_size m = length (idmap_map m)"

text \<open>
  \<^verbatim>\<open>add (item) {
    if (this._seq >= 0xffffffff) this._seq = 0
    this._map.set(++this._seq, item)
    return this._seq
  }\<close>
\<close>

definition idmap_add :: "'a \<Rightarrow> 'a idmap \<Rightarrow> nat \<times> 'a idmap" where
  "idmap_add item m =
     (let s0 = (if idmap_seq m \<ge> 0xffffffff then 0 else idmap_seq m);
          s1 = s0 + 1
      in (s1, \<lparr>idmap_map = AList.update s1 item (idmap_map m), idmap_seq = s1\<rparr>))"

definition idmap_get :: "'a idmap \<Rightarrow> nat \<Rightarrow> 'a option" where
  "idmap_get m i = map_of (idmap_map m) i"

text \<open>
  \<^verbatim>\<open>remove (id) {
    const item = this._map.get(id)
    if (item !== undefined) this._map.delete(id)
    return item
  }\<close>
\<close>

definition idmap_remove :: "nat \<Rightarrow> 'a idmap \<Rightarrow> 'a option \<times> 'a idmap" where
  "idmap_remove i m =
     (case map_of (idmap_map m) i of
        None \<Rightarrow> (None, m)
      | Some item \<Rightarrow> (Some item, m\<lparr>idmap_map := AList.delete i (idmap_map m)\<rparr>))"

definition idmap_values :: "'a idmap \<Rightarrow> 'a list" where
  "idmap_values m = map snd (idmap_map m)"

text \<open>
  \<^verbatim>\<open>clear () {
    const values = Array.from(this._map.values())
    this._map.clear()
    this._seq = 0
    return values
  }\<close>
\<close>

definition idmap_clear :: "'a idmap \<Rightarrow> 'a list \<times> 'a idmap" where
  "idmap_clear m = (idmap_values m, \<lparr>idmap_map = [], idmap_seq = 0\<rparr>)"

subsection \<open>Messages\<close>

type_synonym bytes = "nat list"

datatype error = ModuleError string string | Error string | TypeError

text \<open>The first argument of \<open>ModuleError\<close> is the message, the second the code.\<close>

datatype jsvalue = Undefined | Null | Buffer bytes

text \<open>
  A decoded host message (\<open>res\<close> in the source). \<open>res_error\<close> is \<open>None\<close> where the
  object has no \<open>error\<close> field, \<open>res_data\<close> is \<open>None\<close> where it has no \<open>data\<close> field
  (an iteratorError message has none). \<open>res_values\<close> lists the \<open>value\<close> field of each
  element of \<open>values\<close>.
\<close>

record res =
  res_id :: nat
  res_seq :: nat
  res_error :: "string option"
  res_value :: jsvalue
  res_values :: "jsvalue list"
  res_data :: "bytes list option"

text \<open>
  \<open>if (res.error)\<close>: an absent field and the empty string are falsy. \<open>error_code\<close>
  gives the string when the test succeeds.
\<close>

definition error_code :: "string option \<Rightarrow> string option" where
  "error_code e = (case e of None \<Rightarrow> None | Some s \<Rightarrow> if s = [] then None else Some s)"

text \<open>\<^verbatim>\<open>function normalizeValue (value) { return value === null ? undefined : value }\<close>\<close>

definition normalizeValue :: "jsvalue \<Rightarrow> jsvalue" where
  "normalizeValue v = (if v = Null then Undefined else v)"

datatype input_tag =
    input_get | input_put | input_del | input_batch | input_iterator | input_iteratorClose
  | input_iteratorAck | input_iteratorSeek | input_clear | input_getMany

text \<open>
  Modelled from the spec: tags.js is not among the sources; the numbers of the output tags
  are those of the spec's section on external interfaces.
\<close>

definition output_callback :: nat where "output_callback = 1"
definition output_iteratorData :: nat where "output_iteratorData = 2"
definition output_iteratorEnd :: nat where "output_iteratorEnd = 3"
definition output_iteratorError :: nat where "output_iteratorError = 4"
definition output_getManyCallback :: nat where "output_getManyCallback = 5"

text \<open>
  Iterator options. \<open>opt_limit\<close> is the limit as the inherited getter \<open>this.limit\<close>
  reports it: a count, or infinity when the caller set none.
\<close>

record options =
  opt_gt :: "bytes option"
  opt_gte :: "bytes option"
  opt_lt :: "bytes option"
  opt_lte :: "bytes option"
  opt_reverse :: bool
  opt_limit :: enat
  opt_keys :: bool
  opt_values :: bool

datatype batch_op = Batch_put bytes bytes | Batch_del bytes

datatype payload =
    P_key bytes | P_keys "bytes list" | P_key_value bytes bytes | P_ops "batch_op list"
  | P_options options

text \<open>
  A request record. \<open>req_callback\<close> names the promise that the record's callback settles
  (the promise the method returns to its caller).
\<close>

record request =
  req_tag :: input_tag
  req_id :: nat
  req_payload :: payload
  req_callback :: nat

text \<open>
  The record of an iterator (\<open>this[kRequest]\<close>; its tag is always \<open>input.iterator\<close> and
  its field \<open>iterator\<close> is the handle that owns it) and the handle's ack message.
\<close>

record it_request =
  ireq_id :: nat
  ireq_seq :: nat
  ireq_options :: options
  ireq_consumed :: nat
  ireq_bookmark :: "bytes option"
  ireq_seek :: "bytes option"

record ack =
  ack_id :: nat
  ack_seq :: nat
  ack_consumed :: nat

text \<open>
  What \<open>kWrite\<close> encodes and writes: the fields of the object it is given, as they are at
  the time of the call.
\<close>

datatype frame =
    F_request request
  | F_iterator it_request
  | F_iteratorSeek nat nat bytes
  | F_iteratorAck ack
  | F_iteratorClose nat

subsection \<open>State\<close>

text \<open>
  The promise that a suspended \<open>_next\<close> awaits. \<open>kCallback\<close> holds the closure that
  settles it; the closure stays in \<open>kCallback\<close> after it was called, and calling it again
  does nothing, as settling a settled promise does nothing. \<open>waiter\<close> is \<open>None\<close> when
  no \<open>_next\<close> of the handle is suspended. \<open>closing\<close> and \<open>pendingClose\<close> belong to
  the part of the handle that it inherits from AbstractIterator: \<open>close()\<close> has been
  called; the call of \<open>_close\<close> waits for the \<open>_next\<close> in flight.
\<close>

datatype promise = Pending | Resolved | Rejected error

record iterator =
  kEnded :: bool
  kErrored :: bool
  kPending :: "res list"
  kCallback :: bool
  kSeq :: nat
  kRequest :: it_request
  kAckMessage :: ack
  it_limit :: enat
  waiter :: "promise option"
  closing :: bool
  pendingClose :: bool

datatype result = R_value jsvalue | R_values "jsvalue list"

datatype event =
    Emit_flush
  | Ref_ref
  | Ref_unref
  | Callback nat "error + result"
  | Stream_destroy nat
  | Iterator_close nat
  | Db_call input_tag payload
  | Db_close

text \<open>
  \<open>Callback p a\<close>: the callback of a request record was called, with an error or with a
  result; \<open>p\<close> is the promise it settles. \<open>Iterator_close h\<close>: the inherited
  \<open>close()\<close> of the handle at address \<open>h\<close> was called. \<open>kRef\<close> is the keepalive
  handle, with whether it has a \<open>ref\<close> and an \<open>unref\<close> method. \<open>kRpcStream\<close> names the
  attached proxy stream by its serial number, \<open>proxies\<close> counts the proxies made so far.
  \<open>kEncode\<close> lists the frames written to the current encoder, \<open>kDb\<close> tells whether
  \<open>forward\<close> has set a database. \<open>tasks\<close> are the continuations that wait for their
  turn: \<open>Close_tail h\<close> is the rest of the \<open>_close\<close> of handle \<open>h\<close>, from its
  \<open>await\<close> on.
\<close>

datatype task = Close_tail nat

record guest =
  kIterators :: "nat idmap"
  kRequests :: "request idmap"
  kRetry :: bool
  kEncode :: "frame list"
  kCleanup :: bool
  kRpcStream :: "nat option"
  kRef :: "(bool \<times> bool) option"
  kDb :: bool
  kExplicitClose :: bool
  heap :: "iterator list"
  proxies :: nat
  events :: "event list"
  tasks :: "task list"

definition ManyLevelGuest :: "bool \<Rightarrow> guest" where
  "ManyLevelGuest retry =
     \<lparr>kIterators = IdMap, kRequests = IdMap, kRetry = retry, kEncode = [], kCleanup = False,
      kRpcStream = None, kRef = None, kDb = False, kExplicitClose = False, heap = [],
      proxies = 0, events = [], tasks = []\<rparr>"

definition modify :: "nat \<Rightarrow> (iterator \<Rightarrow> iterator) \<Rightarrow> guest \<Rightarrow> guest" where
  "modify h f g = g\<lparr>heap := (heap g)[h := f (heap g ! h)]\<rparr>"

subsection \<open>Keepalive, writing, flushing\<close>

text \<open>
  \<^verbatim>\<open>function ref (r) { if (r && r.ref) r.ref() }
  function unref (r) { if (r && r.unref) r.unref() }\<close>
\<close>

definition ref :: "(bool \<times> bool) option \<Rightarrow> event list" where
  "ref r = (case r of None \<Rightarrow> [] | Some (has_ref, has_unref) \<Rightarrow> if has_ref then [Ref_ref] else [])"

definition unref :: "(bool \<times> bool) option \<Rightarrow> event list" where
  "unref r = (case r of None \<Rightarrow> [] | Some (has_ref, has_unref) \<Rightarrow> if has_unref then [Ref_unref] else [])"

text \<open>
  \<^verbatim>\<open>async [kWrite] (req) {
    if (this[kRequests].size + this[kIterators].size === 1) ref(this[kRef])
    ... return this[kEncode].write(buf)
  }\<close>
\<close>

definition kWrite :: "frame \<Rightarrow> guest \<Rightarrow> guest" where
  "kWrite f g =
     (let g1 = (if idmap_size (kRequests g) + idmap_size (kIterators g) = 1
                then g\<lparr>events := events g @ ref (kRef g)\<rparr> else g)
      in g1\<lparr>kEncode := kEncode g1 @ [f]\<rparr>)"

definition isFlushed :: "guest \<Rightarrow> bool" where
  "isFlushed g = (idmap_size (kRequests g) = 0 \<and> idmap_size (kIterators g) = 0)"

text \<open>
  \<^verbatim>\<open>[kFlushed] () {
    if (!this.isFlushed()) return
    this.emit('flush')
    unref(this[kRef])
  }\<close>
\<close>

definition kFlushed :: "guest \<Rightarrow> guest" where
  "kFlushed g =
     (if \<not> isFlushed g then g
      else g\<lparr>events := events g @ [Emit_flush] @ unref (kRef g)\<rparr>)"

subsection \<open>Replies from the host\<close>

text \<open>
  Calling the closure that \<open>_next\<close> stored in \<open>kCallback\<close>:
  \<^verbatim>\<open>(err, data) => { if (err) reject(err) else resolve(data) }\<close>
\<close>

definition call_callback :: "error option \<Rightarrow> iterator \<Rightarrow> iterator" where
  "call_callback err it =
     (if waiter it = Some Pending
      then it\<lparr>waiter := Some (case err of None \<Rightarrow> Resolved | Some e \<Rightarrow> Rejected e)\<rparr>
      else it)"

text \<open>
  \<^verbatim>\<open>function oniteratordata (res) {
    const req = self[kIterators].get(res.id)
    if (!req || req.iterator[kSeq] !== res.seq) return
    req.iterator[kPending].push(res)
    if (req.iterator[kCallback]) req.iterator[kCallback](null, res)
  }\<close>
\<close>

definition oniteratordata :: "res \<Rightarrow> guest \<Rightarrow> guest" where
  "oniteratordata r g =
     (case idmap_get (kIterators g) (res_id r) of
        None \<Rightarrow> g
      | Some h \<Rightarrow>
          modify h (\<lambda>it.
            if kSeq it \<noteq> res_seq r then it
            else let it1 = it\<lparr>kPending := kPending it @ [r]\<rparr>
                 in if kCallback it1 then call_callback None it1 else it1) g)"

text \<open>
  \<^verbatim>\<open>function oniteratorend (res) {
    const req = self[kIterators].get(res.id)
    if (!req || req.iterator[kSeq] !== res.seq) return
    req.iterator[kEnded] = true
    if (req.iterator[kCallback]) req.iterator[kCallback](null, res)
  }\<close>
\<close>

definition oniteratorend :: "res \<Rightarrow> guest \<Rightarrow> guest" where
  "oniteratorend r g =
     (case idmap_get (kIterators g) (res_id r) of
        None \<Rightarrow> g
      | Some h \<Rightarrow>
          modify h (\<lambda>it.
            if kSeq it \<noteq> res_seq r then it
            else let it1 = it\<lparr>kEnded := True\<rparr>
                 in if kCallback it1 then call_callback None it1 else it1) g)"

text \<open>
  \<^verbatim>\<open>function oncallback (res) {
    const req = self[kRequests].remove(res.id)
    if (!req || !req.callback) return
    if (res.error) req.callback(new ModuleError('Could not get value', { code: res.error }))
    else req.callback(null, normalizeValue(res.value))
  }\<close>
  Every request record is made with a callback, so \<open>!req.callback\<close> is false.
\<close>

definition oncallback :: "res \<Rightarrow> guest \<Rightarrow> guest" where
  "oncallback r g =
     (let (item, m) = idmap_remove (res_id r) (kRequests g);
          g1 = g\<lparr>kRequests := m\<rparr>
      in case item of
           None \<Rightarrow> g1
         | Some req \<Rightarrow>
             (case error_code (res_error r) of
                Some code \<Rightarrow>
                  g1\<lparr>events := events g1 @
                    [Callback (req_callback req) (Inl (ModuleError ''Could not get value'' code))]\<rparr>
              | None \<Rightarrow>
                  g1\<lparr>events := events g1 @
                    [Callback (req_callback req) (Inr (R_value (normalizeValue (res_value r))))]\<rparr>))"

text \<open>
  \<^verbatim>\<open>function ongetmanycallback (res) {
    const req = self[kRequests].remove(res.id)
    if (!req || !req.callback) return
    if (res.error) req.callback(new ModuleError('Could not get values', { code: res.error }))
    else req.callback(null, res.values.map(v => normalizeValue(v.value)))
  }\<close>
\<close>

definition ongetmanycallback :: "res \<Rightarrow> guest \<Rightarrow> guest" where
  "ongetmanycallback r g =
     (let (item, m) = idmap_remove (res_id r) (kRequests g);
          g1 = g\<lparr>kRequests := m\<rparr>
      in case item of
           None \<Rightarrow> g1
         | Some req \<Rightarrow>
             (case error_code (res_error r) of
                Some code \<Rightarrow>
                  g1\<lparr>events := events g1 @
                    [Callback (req_callback req) (Inl (ModuleError ''Could not get values'' code))]\<rparr>
              | None \<Rightarrow>
                  g1\<lparr>events := events g1 @
                    [Callback (req_callback req)
                       (Inr (R_values (map normalizeValue (res_values r))))]\<rparr>))"

text \<open>The \<open>switch (tag)\<close> of the decoder's data handler; it has no default case.\<close>

definition dispatch :: "nat \<Rightarrow> res \<Rightarrow> guest \<Rightarrow> guest" where
  "dispatch tag r g =
     (if tag = output_callback then oncallback r g
      else if tag = output_iteratorData then oniteratordata r g
      else if tag = output_iteratorError then oniteratordata r g
      else if tag = output_iteratorEnd then oniteratorend r g
      else if tag = output_getManyCallback then ongetmanycallback r g
      else g)"

text \<open>
  The data handler of the decoder, for one frame \<open>data\<close>:
  \<^verbatim>\<open>decode.on('data', function (data) {
    if (!data.length) return
    const tag = data[0]
    const encoding = output.encoding(tag)
    if (!encoding) return
    let res
    try { res = encoding.decode(data, 1) } catch (err) { return }
    switch (tag) { ... }
    self[kFlushed]()
  })\<close>
  \<open>output.encoding\<close> belongs to tags.js and messages.js, which are not among the sources:
  it is the parameter \<open>output_encoding\<close>, which gives for a tag its decoder, if there is
  one; the decoder gives \<open>None\<close> where it throws.
\<close>

definition ondata :: "(nat \<Rightarrow> (bytes \<Rightarrow> res option) option) \<Rightarrow> bytes \<Rightarrow> guest \<Rightarrow> guest" where
  "ondata output_encoding data g =
     (case data of
        [] \<Rightarrow> g
      | tag # _ \<Rightarrow>
          (case output_encoding tag of
             None \<Rightarrow> g
           | Some decode \<Rightarrow>
               (case decode data of
                  None \<Rightarrow> g
                | Some r \<Rightarrow> kFlushed (dispatch tag r g))))"

subsection \<open>Abort, transport finish, attachment\<close>

text \<open>
  \<open>_close\<close> of an iterator:
  \<^verbatim>\<open>async _close () {
    await this.db[kWrite]({ tag: input.iteratorClose, id: this[kRequest].id })
    this.db[kIterators].remove(this[kRequest].id)
    this.db[kFlushed]()
  }\<close>
  The call writes the frame and returns at the \<open>await\<close> (\<open>iterator_close_start\<close>);
  the two lines after it run when the code that called has come to its end
  (\<open>iterator_close_finish\<close>, the task \<open>Close_tail\<close>).
\<close>

definition iterator_close_start :: "nat \<Rightarrow> guest \<Rightarrow> guest" where
  "iterator_close_start h g =
     (let g1 = kWrite (F_iteratorClose (ireq_id (kRequest (heap g ! h)))) g
      in g1\<lparr>tasks := tasks g1 @ [Close_tail h]\<rparr>)"

definition iterator_close_finish :: "nat \<Rightarrow> guest \<Rightarrow> guest" where
  "iterator_close_finish h g =
     (let (item, m) = idmap_remove (ireq_id (kRequest (heap g ! h))) (kIterators g)
      in kFlushed (g\<lparr>kIterators := m\<rparr>))"

text \<open>
  \<open>close()\<close> is the method that a handle inherits from AbstractIterator, which is not of
  this repository. What guest.js relies on: \<open>close()\<close> calls \<open>_close\<close>, once for a
  handle; and while a \<open>next()\<close> of the handle is in flight, the call of \<open>_close\<close> waits
  until that \<open>next()\<close> has settled (the source, in \<open>kAbortRequests\<close>: "Note: an
  in-flight operation would block close()"). \<open>end_work\<close> is what follows when a
  \<open>_next\<close> has settled: a \<open>close()\<close> that waited calls \<open>_close\<close>.
\<close>

definition close_call :: "nat \<Rightarrow> guest \<Rightarrow> guest" where
  "close_call h g =
     (let this = heap g ! h in
      if closing this then g
      else let g1 = modify h (\<lambda>it. it\<lparr>closing := True\<rparr>) g
           in if waiter this \<noteq> None then modify h (\<lambda>it. it\<lparr>pendingClose := True\<rparr>) g1
              else iterator_close_start h g1)"

definition end_work :: "nat \<Rightarrow> guest \<Rightarrow> guest" where
  "end_work h g =
     (if pendingClose (heap g ! h)
      then iterator_close_start h (modify h (\<lambda>it. it\<lparr>pendingClose := False\<rparr>) g)
      else g)"

text \<open>
  The body of the second loop of \<open>kAbortRequests\<close>, for the record of the handle at \<open>h\<close>:
  \<^verbatim>\<open>const callback = req.iterator[kCallback]
  req.iterator[kCallback] = null
  if (callback) { callback(new ModuleError(msg, { code })) }
  req.iterator.close(noop)\<close>
  \<open>abort_it\<close> is what the first three lines do to the handle. The call of \<open>close\<close> is
  logged as \<open>Iterator_close h\<close>, and made.
\<close>

definition abort_it :: "string \<Rightarrow> string \<Rightarrow> iterator \<Rightarrow> iterator" where
  "abort_it msg code it =
     (let callback = kCallback it;
          it1 = it\<lparr>kCallback := False\<rparr>
      in if callback then call_callback (Some (ModuleError msg code)) it1 else it1)"

definition abort_iterator :: "string \<Rightarrow> string \<Rightarrow> nat \<Rightarrow> guest \<Rightarrow> guest" where
  "abort_iterator msg code h g =
     (let g1 = modify h (abort_it msg code) g;
          g2 = g1\<lparr>events := events g1 @ [Iterator_close h]\<rparr>
      in close_call h g2)"

text \<open>
  \<^verbatim>\<open>[kAbortRequests] (msg, code) {
    for (const req of this[kRequests].clear()) { req.callback(new ModuleError(msg, { code })) }
    for (const req of this[kIterators].clear()) { ... }
  }\<close>
\<close>

definition kAbortRequests :: "string \<Rightarrow> string \<Rightarrow> guest \<Rightarrow> guest" where
  "kAbortRequests msg code g =
     (let (reqs, m) = idmap_clear (kRequests g);
          g1 = g\<lparr>kRequests := m\<rparr>;
          g2 = g1\<lparr>events := events g1 @
                 map (\<lambda>req. Callback (req_callback req) (Inl (ModuleError msg code))) reqs\<rparr>;
          (its, m') = idmap_clear (kIterators g2);
          g3 = g2\<lparr>kIterators := m'\<rparr>
      in fold (abort_iterator msg code) its g3)"

text \<open>
  The function stored in \<open>kCleanup\<close>, from the point where \<open>finished(proxy)\<close> has
  settled (the transport has finished, normally or not):
  \<^verbatim>\<open>self[kRpcStream] = null
  self[kEncode] = lpstream.encode()
  if (!self[kRetry]) {
    self[kAbortRequests]('Connection to leader lost', 'LEVEL_CONNECTION_LOST')
    self[kFlushed]()
    return
  }
  for (const req of self[kRequests].values()) { await self[kWrite](req) }
  for (const req of self[kIterators].values()) { await self[kWrite](req) }\<close>
  The two loops are \<open>replay_requests\<close> and \<open>replay_iterators\<close>; a record of the
  iterators map is the record of the handle it names. The loops are taken as one step: each
  \<open>await\<close> is on a write that has already happened.
\<close>

fun replay_requests :: "request list \<Rightarrow> guest \<Rightarrow> guest" where
  "replay_requests [] g = g"
| "replay_requests (req # reqs) g = replay_requests reqs (kWrite (F_request req) g)"

fun replay_iterators :: "nat list \<Rightarrow> guest \<Rightarrow> guest" where
  "replay_iterators [] g = g"
| "replay_iterators (h # hs) g = replay_iterators hs (kWrite (F_iterator (kRequest (heap g ! h))) g)"

definition cleanup :: "guest \<Rightarrow> guest" where
  "cleanup g =
     (let g1 = g\<lparr>kRpcStream := None, kEncode := []\<rparr>
      in if \<not> kRetry g1
         then kFlushed (kAbortRequests ''Connection to leader lost'' ''LEVEL_CONNECTION_LOST'' g1)
         else let g2 = replay_requests (idmap_values (kRequests g1)) g1
              in replay_iterators (idmap_values (kIterators g2)) g2)"

text \<open>
  \<^verbatim>\<open>createRpcStream (opts) {
    if (this[kRpcStream]) { throw new Error('Only one rpc stream can be active') }
    if (!opts) opts = {}
    this[kRef] = opts.ref || null
    ...
    const proxy = Duplex.from({ writable: decode, readable: encode })
    self[kCleanup] = (async () => { ... })()
    self[kRpcStream] = proxy
    return proxy
  }\<close>
  The argument is \<open>opts.ref\<close>. The readable side of the proxy is the encoder that
  \<open>kEncode\<close> holds at the call. A throw is \<open>Inl\<close>: the state stays what it was.
\<close>

definition createRpcStream :: "(bool \<times> bool) option \<Rightarrow> guest \<Rightarrow> error + nat \<times> guest" where
  "createRpcStream opts_ref g =
     (case kRpcStream g of
        Some p \<Rightarrow> Inl (Error ''Only one rpc stream can be active'')
      | None \<Rightarrow>
          (let g1 = g\<lparr>kRef := opts_ref\<rparr>;
               proxy = proxies g1;
               g2 = g1\<lparr>proxies := proxy + 1, kCleanup := True\<rparr>
           in Inr (proxy, g2\<lparr>kRpcStream := Some proxy\<rparr>)))"

text \<open>\<^verbatim>\<open>connect (...args) { return this.createRpcStream(...args) }\<close>\<close>

definition connect :: "(bool \<times> bool) option \<Rightarrow> guest \<Rightarrow> error + nat \<times> guest" where
  "connect opts_ref g = createRpcStream opts_ref g"

subsection \<open>Store operations\<close>

text \<open>
  \<open>_get\<close>, \<open>_getMany\<close>, \<open>_put\<close>, \<open>_del\<close>, \<open>_batch\<close> and \<open>_clear\<close> have one
  body, up to the tag and the payload:
  \<^verbatim>\<open>if (this[kDb]) return this[kDb]._get(key, opts)
  return new Promise((resolve, reject) => {
    const req = { tag: input.get, id: 0, key: key, callback: ... }
    req.id = this[kRequests].add(req)
    this[kWrite](req)
  })\<close>
  \<open>cb\<close> names the promise returned. The record that the map holds is the object whose
  \<open>id\<close> is assigned after \<open>add\<close>.
\<close>

definition send_request :: "input_tag \<Rightarrow> payload \<Rightarrow> nat \<Rightarrow> guest \<Rightarrow> guest" where
  "send_request tag p cb g =
     (if kDb g then g\<lparr>events := events g @ [Db_call tag p]\<rparr>
      else let req = \<lparr>req_tag = tag, req_id = 0, req_payload = p, req_callback = cb\<rparr>;
               (i, m) = idmap_add req (kRequests g);
               req' = req\<lparr>req_id := i\<rparr>;
               m' = m\<lparr>idmap_map := AList.update i req' (idmap_map m)\<rparr>
           in kWrite (F_request req') (g\<lparr>kRequests := m'\<rparr>))"

definition guest_get :: "bytes \<Rightarrow> nat \<Rightarrow> guest \<Rightarrow> guest" where
  "guest_get key cb g = send_request input_get (P_key key) cb g"

definition guest_getMany :: "bytes list \<Rightarrow> nat \<Rightarrow> guest \<Rightarrow> guest" where
  "guest_getMany keys cb g = send_request input_getMany (P_keys keys) cb g"

definition guest_put :: "bytes \<Rightarrow> bytes \<Rightarrow> nat \<Rightarrow> guest \<Rightarrow> guest" where
  "guest_put key v cb g = send_request input_put (P_key_value key v) cb g"

definition guest_del :: "bytes \<Rightarrow> nat \<Rightarrow> guest \<Rightarrow> guest" where
  "guest_del key cb g = send_request input_del (P_key key) cb g"

definition guest_batch :: "batch_op list \<Rightarrow> nat \<Rightarrow> guest \<Rightarrow> guest" where
  "guest_batch batch cb g = send_request input_batch (P_ops batch) cb g"

definition guest_clear :: "options \<Rightarrow> nat \<Rightarrow> guest \<Rightarrow> guest" where
  "guest_clear opts cb g = send_request input_clear (P_options opts) cb g"

text \<open>
  \<^verbatim>\<open>forward (db) {
    for (const enc of ['keyEncoding', 'valueEncoding']) {
      if (db[enc]('buffer').name !== 'buffer') { throw new ModuleError(..., { code: 'LEVEL_ENCODING_NOT_SUPPORTED' }) }
    }
    this[kDb] = db
  }\<close>
  The arguments tell whether the key encoding and the value encoding of \<open>db\<close> pass the test.
\<close>

definition forward :: "bool \<Rightarrow> bool \<Rightarrow> guest \<Rightarrow> error + guest" where
  "forward key_buffer value_buffer g =
     (if \<not> key_buffer
      then Inl (ModuleError (''Database must support non-transcoded '' @ [CHR 0x27] @ ''buffer''
                  @ [CHR 0x27] @ '' keyEncoding'') ''LEVEL_ENCODING_NOT_SUPPORTED'')
      else if \<not> value_buffer
      then Inl (ModuleError (''Database must support non-transcoded '' @ [CHR 0x27] @ ''buffer''
                  @ [CHR 0x27] @ '' valueEncoding'') ''LEVEL_ENCODING_NOT_SUPPORTED'')
      else Inr (g\<lparr>kDb := True\<rparr>))"

text \<open>
  \<^verbatim>\<open>async _close () {
    this[kExplicitClose] = true
    this[kAbortRequests]('Aborted on database close()', 'LEVEL_DATABASE_NOT_OPEN')
    if (this[kRpcStream]) {
      const finishedPromise = finished(this[kRpcStream]).catch(() => null)
      this[kRpcStream].destroy().catch(() => null)
      await finishedPromise
      if (this[kCleanup]) await this[kCleanup]
      this[kRpcStream] = null
      this[kCleanup] = null
    }
    if (this[kDb]) { return this[kDb].close() }
  }\<close>
  \<open>destroy()\<close> of the proxy is called and returns the stream; a stream has no method
  \<open>catch\<close>, so \<open>.catch(() => null)\<close> throws a TypeError, with which \<open>_close\<close>
  ends: with a stream attached, the lines after it are not reached. The destroyed proxy
  finishes, and the function in \<open>kCleanup\<close> goes on by itself (the action \<open>Finish\<close>
  below). The result is the error thrown, if any, and the guest.
\<close>

definition guest_close :: "guest \<Rightarrow> error option \<times> guest" where
  "guest_close g =
     (let g1 = g\<lparr>kExplicitClose := True\<rparr>;
          g2 = kAbortRequests ''Aborted on database close()'' ''LEVEL_DATABASE_NOT_OPEN'' g1
      in case kRpcStream g2 of
           Some p \<Rightarrow> (Some TypeError, g2\<lparr>events := events g2 @ [Stream_destroy p]\<rparr>)
         | None \<Rightarrow> (None, if kDb g2 then g2\<lparr>events := events g2 @ [Db_close]\<rparr> else g2))"

subsection \<open>ManyLevelGuestIterator\<close>

text \<open>
  \<^verbatim>\<open>constructor (db, options) {
    if (db[kRetry]) options.keys = true
    super(db, Object.assign({}, options, { abortOnClose: true }))
    this[kEnded] = false; this[kErrored] = false; this[kPending] = []
    this[kCallback] = null; this[kSeq] = 0
    const req = this[kRequest] = { tag: input.iterator, id: 0, seq: 0, iterator: this,
      options, consumed: 0, bookmark: null, seek: null }
    const ack = this[kAckMessage] = { tag: input.iteratorAck, id: 0, seq: 0, consumed: 0 }
    req.id = this.db[kIterators].add(req)
    ack.id = req.id
    this.db[kWrite](req)
  }\<close>
  The new handle gets the next free address of the store, which is returned.
\<close>

definition ManyLevelGuestIterator :: "options \<Rightarrow> guest \<Rightarrow> nat \<times> guest" where
  "ManyLevelGuestIterator opts g =
     (let options = (if kRetry g then opts\<lparr>opt_keys := True\<rparr> else opts);
          req = \<lparr>ireq_id = 0, ireq_seq = 0, ireq_options = options, ireq_consumed = 0,
                 ireq_bookmark = None, ireq_seek = None\<rparr>;
          ack = \<lparr>ack_id = 0, ack_seq = 0, ack_consumed = 0\<rparr>;
          this = \<lparr>kEnded = False, kErrored = False, kPending = [], kCallback = False, kSeq = 0,
                  kRequest = req, kAckMessage = ack, it_limit = opt_limit options,
                  waiter = None, closing = False, pendingClose = False\<rparr>;
          h = length (heap g);
          g1 = g\<lparr>heap := heap g @ [this]\<rparr>;
          (i, m) = idmap_add h (kIterators g1);
          g2 = g1\<lparr>kIterators := m\<rparr>;
          g3 = modify h (\<lambda>it. it\<lparr>kRequest := (kRequest it)\<lparr>ireq_id := i\<rparr>\<rparr>) g2;
          g4 = modify h (\<lambda>it. it\<lparr>kAckMessage := (kAckMessage it)\<lparr>ack_id := i\<rparr>\<rparr>) g3
      in (h, kWrite (F_iterator (kRequest (heap g4 ! h))) g4))"

text \<open>
  \<^verbatim>\<open>iterator (options) {
    if (this[kDb]) { return this[kDb].iterator(options) }
    else { return AbstractLevel.prototype.iterator.call(this, options) }
  }
  _iterator (options) { return new ManyLevelGuestIterator(this, options) }\<close>
\<close>

definition guest_iterator :: "options \<Rightarrow> guest \<Rightarrow> nat option \<times> guest" where
  "guest_iterator opts g =
     (if kDb g then (None, g\<lparr>events := events g @ [Db_call input_iterator (P_options opts)]\<rparr>)
      else let (h, g') = ManyLevelGuestIterator opts g in (Some h, g'))"

text \<open>
  \<^verbatim>\<open>_seek (target, options) {
    if (this[kErrored]) return
    this[kPending] = []
    this[kEnded] = false
    this[kRequest].seq = ++this[kSeq]
    this[kAckMessage].seq = this[kRequest].seq
    this[kRequest].seek = target
    this[kRequest].bookmark = null
    this.db[kWrite]({ tag: input.iteratorSeek, id: this[kRequest].id, seq: this[kRequest].seq, target })
  }\<close>
\<close>

definition iterator_seek :: "nat \<Rightarrow> bytes \<Rightarrow> guest \<Rightarrow> guest" where
  "iterator_seek h target g =
     (if kErrored (heap g ! h) then g
      else let g1 = modify h (\<lambda>it.
                      let s = kSeq it + 1
                      in it\<lparr>kPending := [], kEnded := False, kSeq := s,
                            kRequest := (kRequest it)\<lparr>ireq_seq := s, ireq_seek := Some target,
                                                      ireq_bookmark := None\<rparr>,
                            kAckMessage := (kAckMessage it)\<lparr>ack_seq := s\<rparr>\<rparr>) g;
               req = kRequest (heap g1 ! h)
           in kWrite (F_iteratorSeek (ireq_id req) (ireq_seq req) target) g1)"

text \<open>\<open>Array.prototype.shift\<close>: the first element, or undefined on an empty array.\<close>

definition shift :: "'a list \<Rightarrow> 'a option \<times> 'a list" where
  "shift xs = (case xs of [] \<Rightarrow> (None, []) | x # rest \<Rightarrow> (Some x, rest))"

text \<open>
  The two lines of \<open>_next\<close> that take an entry from the data \<open>d\<close> of a message:
  \<^verbatim>\<open>const key = req.options.keys ? next.data.shift() : undefined
  const val = req.options.values ? next.data.shift() : undefined\<close>
  with what they leave in \<open>next.data\<close>.
\<close>

definition take_entry :: "options \<Rightarrow> bytes list \<Rightarrow> bytes option \<times> bytes option \<times> bytes list" where
  "take_entry opts d =
     (let (key, d1) = (if opt_keys opts then shift d else (None, d));
          (val, d2) = (if opt_values opts then shift d1 else (None, d1))
      in (key, val, d2))"

text \<open>
  What a call of \<open>_next\<close> comes to: it returns undefined (\<open>Done\<close>), it returns
  \<open>[key, val]\<close>, it throws, or it is suspended at its \<open>await\<close> on the waiter.
\<close>

datatype next_result = Done | Entry "bytes option" "bytes option" | Throw error | Suspended

text \<open>
  \<open>_next\<close> from the line \<open>const next = this[kPending][0]\<close> on:
  \<^verbatim>\<open>const next = this[kPending][0]
  const req = this[kRequest]
  if (!next && this[kEnded]) return
  if (next.error) {
    this[kErrored] = true; this[kEnded] = true; this[kPending] = []
    throw new ModuleError('Could not read entry', { code: next.error })
  }
  const consumed = ++req.consumed
  const key = req.options.keys ? next.data.shift() : undefined
  const val = req.options.values ? next.data.shift() : undefined
  if (next.data.length === 0) {
    this[kPending].shift()
    if (consumed < this.limit) {
      this[kAckMessage].consumed = consumed
      await this.db[kWrite](this[kAckMessage])
    }
  }
  req.seek = null
  if (this.db[kRetry]) { req.bookmark = key }
  return [key, val]\<close>
  With no first element and \<open>kEnded\<close> false, \<open>next.error\<close> throws a TypeError; so does
  \<open>next.data.shift()\<close> or \<open>next.data.length\<close> on a message without \<open>data\<close>, after
  \<open>consumed\<close> was incremented.
\<close>

definition next_body :: "nat \<Rightarrow> guest \<Rightarrow> next_result \<times> guest" where
  "next_body h g =
     (let this = heap g ! h; req = kRequest this in
      case kPending this of
        [] \<Rightarrow> if kEnded this then (Done, g) else (Throw TypeError, g)
      | nxt # rest \<Rightarrow>
          (case error_code (res_error nxt) of
             Some code \<Rightarrow>
               (Throw (ModuleError ''Could not read entry'' code),
                modify h (\<lambda>it. it\<lparr>kErrored := True, kEnded := True, kPending := []\<rparr>) g)
           | None \<Rightarrow>
               (let consumed = ireq_consumed req + 1;
                    g1 = modify h (\<lambda>it. it\<lparr>kRequest := (kRequest it)\<lparr>ireq_consumed := consumed\<rparr>\<rparr>) g
                in case res_data nxt of
                     None \<Rightarrow> (Throw TypeError, g1)
                   | Some d \<Rightarrow>
                       (let (key, val, d2) = take_entry (ireq_options req) d;
                            g2 = modify h (\<lambda>it. it\<lparr>kPending := nxt\<lparr>res_data := Some d2\<rparr> # rest\<rparr>) g1;
                            g3 = (if d2 = []
                                  then let g4 = modify h (\<lambda>it. it\<lparr>kPending := rest\<rparr>) g2
                                       in if enat consumed < it_limit this
                                          then let g5 = modify h (\<lambda>it. it\<lparr>kAckMessage :=
                                                          (kAckMessage it)\<lparr>ack_consumed := consumed\<rparr>\<rparr>) g4
                                               in kWrite (F_iteratorAck (kAckMessage (heap g5 ! h))) g5
                                          else g4
                                  else g2);
                            g6 = modify h (\<lambda>it. it\<lparr>kRequest := (kRequest it)\<lparr>ireq_seek := None\<rparr>\<rparr>) g3;
                            g7 = (if kRetry g6
                                  then modify h (\<lambda>it. it\<lparr>kRequest := (kRequest it)\<lparr>ireq_bookmark := key\<rparr>\<rparr>) g6
                                  else g6)
                        in (Entry key val, g7)))))"

text \<open>
  \<open>_next\<close> from its start:
  \<^verbatim>\<open>if (this[kRequest].consumed >= this.limit || this[kErrored]) { return }
  if (this[kEnded] && !this[kPending].length) { return undefined }
  if (!this[kPending].length) {
    await new Promise((resolve, reject) => {
      this[kCallback] = (err, data) => { if (err) reject(err) else resolve(data) }
    })
  }\<close>
\<close>

definition iterator_next :: "nat \<Rightarrow> guest \<Rightarrow> next_result \<times> guest" where
  "iterator_next h g =
     (let this = heap g ! h in
      if enat (ireq_consumed (kRequest this)) \<ge> it_limit this \<or> kErrored this then (Done, g)
      else if kEnded this \<and> kPending this = [] then (Done, g)
      else if kPending this = []
      then (Suspended, modify h (\<lambda>it. it\<lparr>kCallback := True, waiter := Some Pending\<rparr>) g)
      else next_body h g)"

text \<open>
  A suspended \<open>_next\<close> goes on once its waiter is settled: a rejection is thrown from the
  \<open>await\<close>, a resolution lets the rest of the body run.
\<close>

definition next_resume :: "nat \<Rightarrow> guest \<Rightarrow> next_result \<times> guest" where
  "next_resume h g =
     (case waiter (heap g ! h) of
        Some (Rejected e) \<Rightarrow> (Throw e, modify h (\<lambda>it. it\<lparr>waiter := None\<rparr>) g)
      | Some Resolved \<Rightarrow> next_body h (modify h (\<lambda>it. it\<lparr>waiter := None\<rparr>) g)
      | _ \<Rightarrow> (Suspended, g))"

subsection \<open>Runs\<close>

text \<open>
  What can happen to a guest: a call of one of its methods or of a method of one of its
  iterators, the resumption of a suspended \<open>_next\<close>, a frame from the host, the finish of
  the attached transport, the turn of the first waiting task. A method of a handle is only
  called on a handle that exists; the transport only finishes while a proxy is attached.
  \<open>Next\<close> and \<open>Resume\<close> are followed by \<open>end_work\<close> when the \<open>_next\<close> has
  settled; \<open>CloseIterator\<close> is the caller's \<open>close()\<close>.
\<close>

datatype action =
    Get bytes nat
  | GetMany "bytes list" nat
  | Put bytes bytes nat
  | Del bytes nat
  | Batch "batch_op list" nat
  | Clear options nat
  | Forward bool bool
  | NewIterator options
  | Seek nat bytes
  | Next nat
  | Resume nat
  | CloseIterator nat
  | Frame bytes
  | Finish
  | Attach "(bool \<times> bool) option"
  | Close
  | Tick

definition run_task :: "guest \<Rightarrow> guest" where
  "run_task g =
     (case tasks g of
        [] \<Rightarrow> g
      | Close_tail h # ts \<Rightarrow> iterator_close_finish h (g\<lparr>tasks := ts\<rparr>))"

definition settled_next :: "nat \<Rightarrow> next_result \<times> guest \<Rightarrow> guest" where
  "settled_next h rg = (if fst rg = Suspended then snd rg else end_work h (snd rg))"

definition exec :: "(nat \<Rightarrow> (bytes \<Rightarrow> res option) option) \<Rightarrow> action \<Rightarrow> guest \<Rightarrow> guest" where
  "exec dec a g =
     (case a of
        Get key cb \<Rightarrow> guest_get key cb g
      | GetMany keys cb \<Rightarrow> guest_getMany keys cb g
      | Put key v cb \<Rightarrow> guest_put key v cb g
      | Del key cb \<Rightarrow> guest_del key cb g
      | Batch ops cb \<Rightarrow> guest_batch ops cb g
      | Clear opts cb \<Rightarrow> guest_clear opts cb g
      | Forward kb vb \<Rightarrow> (case forward kb vb g of Inl e \<Rightarrow> g | Inr g' \<Rightarrow> g')
      | NewIterator opts \<Rightarrow> snd (guest_iterator opts g)
      | Seek h target \<Rightarrow> if h < length (heap g) then iterator_seek h target g else g
      | Next h \<Rightarrow> if h < length (heap g) then settled_next h (iterator_next h g) else g
      | Resume h \<Rightarrow> if h < length (heap g) then settled_next h (next_resume h g) else g
      | CloseIterator h \<Rightarrow> if h < length (heap g) then close_call h g else g
      | Frame data \<Rightarrow> ondata dec data g
      | Finish \<Rightarrow> if kRpcStream g = None then g else cleanup g
      | Attach opts_ref \<Rightarrow> (case createRpcStream opts_ref g of Inl e \<Rightarrow> g | Inr (p, g') \<Rightarrow> g')
      | Close \<Rightarrow> snd (guest_close g)
      | Tick \<Rightarrow> run_task g)"

definition run :: "(nat \<Rightarrow> (bytes \<Rightarrow> res option) option) \<Rightarrow> action list \<Rightarrow> guest \<Rightarrow> guest" where
  "run dec as g = fold (exec dec) as g"

subsection \<open>A decoder and states for the examples\<close>

text \<open>
  The examples need one instance of the decoder: a frame is its tag, an id, a seq and then
  one byte for each element of \<open>data\<close>; an iteratorError frame carries the error
  \<open>ERR\<close> and no data. Tags 1 to 5 have this decoder, other tags have none.
\<close>

definition example_decode :: "bytes \<Rightarrow> res option" where
  "example_decode data =
     (case data of
        tag # i # s # rest \<Rightarrow>
          Some \<lparr>res_id = i, res_seq = s,
                res_error = (if tag = output_iteratorError then Some ''ERR'' else None),
                res_value = Null, res_values = [],
                res_data = (if tag = output_iteratorError then None
                            else Some (map (\<lambda>b. [b]) rest))\<rparr>
      | _ \<Rightarrow> None)"

definition example_encoding :: "nat \<Rightarrow> (bytes \<Rightarrow> res option) option" where
  "example_encoding tag = (if 1 \<le> tag \<and> tag \<le> 5 then Some example_decode else None)"

definition example_options :: options where
  "example_options =
     \<lparr>opt_gt = None, opt_gte = None, opt_lt = None, opt_lte = None, opt_reverse = False,
      opt_limit = \<infinity>, opt_keys = False, opt_values = True\<rparr>"

subsection \<open>Notions for the properties\<close>

text \<open>
  \<open>fresh\<close>: every message in the pending queue of a handle carries the handle's current
  seq. \<open>it_rel\<close> relates a handle to a later state of it: the seq has not gone down, a fresh
  queue is still fresh, the options are the same. \<open>guest_rel\<close> relates a guest to a later
  state of it: the handles that were there are related by \<open>it_rel\<close>, and the handles
  made since have \<open>keys\<close> set if the guest retries.
\<close>

definition fresh :: "iterator \<Rightarrow> bool" where
  "fresh it = (\<forall>f \<in> set (kPending it). res_seq f = kSeq it)"

definition it_rel :: "iterator \<Rightarrow> iterator \<Rightarrow> bool" where
  "it_rel it it' =
     (kSeq it \<le> kSeq it' \<and> (fresh it \<longrightarrow> fresh it') \<and>
      ireq_options (kRequest it') = ireq_options (kRequest it))"

definition guest_rel :: "guest \<Rightarrow> guest \<Rightarrow> bool" where
  "guest_rel g g' =
     (kRetry g' = kRetry g \<and> length (heap g) \<le> length (heap g') \<and>
      (\<forall>h < length (heap g). it_rel (heap g ! h) (heap g' ! h)) \<and>
      (\<forall>h. length (heap g) \<le> h \<and> h < length (heap g') \<and> kRetry g \<longrightarrow>
           opt_keys (ireq_options (kRequest (heap g' ! h)))))"

text \<open>
  \<open>handles_ok\<close>: no handle is in the iterators map twice, and every handle in it exists.
\<close>

definition handles_ok :: "guest \<Rightarrow> bool" where
  "handles_ok g =
     (distinct (idmap_values (kIterators g)) \<and>
      (\<forall>h \<in> set (idmap_values (kIterators g)). h < length (heap g)))"

text \<open>
  The states of the examples: \<open>seq_guest\<close> is a guest without retry, attached, with one
  iterator (at address 0, under id 1); \<open>stale_res\<close> is a data message for that iterator
  with seq 5; the iterator of \<open>errored_guest\<close> has pulled an iteratorError message.
\<close>

definition seq_guest :: guest where
  "seq_guest = run example_encoding [Attach None, NewIterator example_options] (ManyLevelGuest False)"

definition errored_guest :: guest where
  "errored_guest = run example_encoding
     [Attach None, NewIterator example_options, Frame [4, 1, 0], Next 0] (ManyLevelGuest False)"

definition stale_res :: res where
  "stale_res = \<lparr>res_id = 1, res_seq = 5, res_error = None, res_value = Null, res_values = [],
     res_data = Some [[7]]\<rparr>"

text \<open>
  \<open>flushes\<close> counts the flush events emitted so far.
\<close>

definition flushes :: "guest \<Rightarrow> nat" where
  "flushes g = length (filter (\<lambda>e. e = Emit_flush) (events g))"

text \<open>
  \<open>decoded\<close>: the message that the data handler gets out of a frame, if the frame is not
  empty, its tag has a decoder and the decoder does not throw.
\<close>

definition decoded :: "(nat \<Rightarrow> (bytes \<Rightarrow> res option) option) \<Rightarrow> bytes \<Rightarrow> res option" where
  "decoded output_encoding data =
     (case data of
        [] \<Rightarrow> None
      | tag # _ \<Rightarrow> (case output_encoding tag of None \<Rightarrow> None | Some decode \<Rightarrow> decode data))"

text \<open>
  More states of the examples, all reached from a new guest. \<open>one_get_guest\<close>: attached,
  no retry, one \<open>get\<close> pending under id 1. \<open>retry_guest\<close>: retry, attached, one
  \<open>get\<close> pending and one iterator that was sought to the key 6. \<open>limit_guest\<close>: one iterator with limit 2 and three data
  messages of one entry each in its queue; \<open>limit_guest1\<close> and \<open>limit_guest2\<close> are
  the states after one and two pulls. \<open>keys_guest\<close>: retry, one iterator made with
  \<open>keys\<close> false, and one data message with a key 5 and a value 6 in its queue.
  \<open>data_res b\<close> is the data message for iterator 1 with seq 0 and the one entry \<open>b\<close>.
  \<open>idle_guest\<close>: attached with a keepalive handle, nothing pending.
  \<open>unattached_get_guest\<close>: never attached, one \<open>get\<close> pending.
  \<open>forwarded_guest\<close>: never attached, one \<open>get\<close> pending from before a database
  was set with \<open>forward\<close>.
  \<open>mixed_guest\<close>: no retry, attached with a keepalive handle, three \<open>get\<close>s pending
  and two iterators, the first with its \<open>_next\<close> suspended, the second idle.
  \<open>limit_wait_guest\<close>: one iterator with limit 2 whose \<open>_next\<close> was suspended and
  has since been woken by a data message of one entry; \<open>limit_wait_guest1\<close> is the
  state after that pull was resumed, a second \<open>_next\<close> was suspended and a second
  message has woken it.
\<close>

definition one_get_guest :: guest where
  "one_get_guest = run example_encoding [Attach None, Get [1] 0] (ManyLevelGuest False)"

definition retry_guest :: guest where
  "retry_guest = run example_encoding
     [Attach None, Get [1] 0, NewIterator example_options, Seek 0 [6]] (ManyLevelGuest True)"

definition limit_guest :: guest where
  "limit_guest = run example_encoding
     [Attach None, NewIterator (example_options\<lparr>opt_limit := 2\<rparr>), Frame [2, 1, 0, 7],
      Frame [2, 1, 0, 8], Frame [2, 1, 0, 9]] (ManyLevelGuest False)"

definition limit_guest1 :: guest where
  "limit_guest1 = snd (iterator_next 0 limit_guest)"

definition limit_guest2 :: guest where
  "limit_guest2 = snd (iterator_next 0 limit_guest1)"

definition data_res :: "nat \<Rightarrow> res" where
  "data_res b = \<lparr>res_id = 1, res_seq = 0, res_error = None, res_value = Null, res_values = [],
     res_data = Some [[b]]\<rparr>"

definition idle_guest :: guest where
  "idle_guest = run example_encoding [Attach (Some (True, True))] (ManyLevelGuest False)"

definition unattached_get_guest :: guest where
  "unattached_get_guest = run example_encoding [Get [1] 0] (ManyLevelGuest False)"

definition forwarded_guest :: guest where
  "forwarded_guest = run example_encoding [Get [1] 0, Forward True True] (ManyLevelGuest False)"

definition mixed_guest :: guest where
  "mixed_guest = run example_encoding
     [Attach (Some (True, True)), Get [1] 0, Get [2] 1, Get [3] 2, NewIterator example_options,
      NewIterator example_options, Next 0] (ManyLevelGuest False)"

definition limit_wait_guest :: guest where
  "limit_wait_guest = run example_encoding
     [Attach None, NewIterator (example_options\<lparr>opt_limit := 2\<rparr>), Next 0,
      Frame [2, 1, 0, 7]] (ManyLevelGuest False)"

definition limit_wait_guest1 :: guest where
  "limit_wait_guest1 = run example_encoding
     [Resume 0, Next 0, Frame [2, 1, 0, 8]] limit_wait_guest"

definition keys_guest :: guest where
  "keys_guest = run example_encoding
     [Attach None, NewIterator example_options, Frame [2, 1, 0, 5, 6]] (ManyLevelGuest True)"

section \<open>Properties\<close>

subsection \<open>The id allocator\<close>

lemma idmap_add_fst:
  "fst (idmap_add item m) = (if idmap_seq m \<ge> 0xffffffff then 1 else idmap_seq m + 1)"
  by (simp add: idmap_add_def Let_def)

lemma idmap_add_snd:
  "snd (idmap_add item m) =
     \<lparr>idmap_map = AList.update (fst (idmap_add item m)) item (idmap_map m),
      idmap_seq = fst (idmap_add item m)\<rparr>"
  by (simp add: idmap_add_def Let_def)

text \<open>
  C8 (as amended). \<open>add\<close> increments the counter and hands out the new value, so the ids
  it allocates lie between 1 and 2^32 - 1. When the counter has reached 2^32 - 1, the next
  \<open>add\<close> resets it to 0 before the increment and hands out 1. The id 0 is never
  allocated. The item is stored under the id handed out, and the counter equals that id.
\<close>

theorem idmap_add_allocates:
  "fst (idmap_add item m) = (if idmap_seq m \<ge> 0xffffffff then 1 else idmap_seq m + 1) \<and>
   1 \<le> fst (idmap_add item m) \<and> fst (idmap_add item m) \<le> 0xffffffff \<and>
   fst (idmap_add item m) \<noteq> 0 \<and>
   idmap_seq (snd (idmap_add item m)) = fst (idmap_add item m) \<and>
   idmap_get (snd (idmap_add item m)) (fst (idmap_add item m)) = Some item"
  by (simp add: idmap_add_fst idmap_add_snd idmap_get_def update_conv')

theorem idmap_add_allocates_witness:
  "fst (idmap_add (7::nat) \<lparr>idmap_map = [], idmap_seq = 0xfffffffe\<rparr>) = 0xffffffff \<and>
   idmap_seq (snd (idmap_add (7::nat) \<lparr>idmap_map = [], idmap_seq = 0xfffffffe\<rparr>)) = 0xffffffff"
  using idmap_add_allocates [of "7::nat" "\<lparr>idmap_map = [], idmap_seq = 0xfffffffe\<rparr>"]
  by simp

text \<open>
  C8 as the claim has it fails: with the counter at 2^32 - 1 the id allocated next is 1, not
  0, and the first id of a new map is 1 as well.
\<close>

theorem idmap_add_zero_counterexample:
  "fst (idmap_add (7::nat) \<lparr>idmap_map = [], idmap_seq = 0xffffffff\<rparr>) = 1 \<and>
   fst (idmap_add (7::nat) IdMap) = 1"
  by (simp add: idmap_add_def IdMap_def Let_def)

subsection \<open>One attachment at a time\<close>

text \<open>
  C9. While a proxy stream is attached, \<open>createRpcStream\<close> and its alias \<open>connect\<close>
  throw the error "Only one rpc stream can be active"; the throw comes before any
  assignment, so the guest, and with it the attachment, stays as it was.
\<close>

theorem second_attachment_rejected:
  "kRpcStream g = Some p \<Longrightarrow>
     createRpcStream opts_ref g = Inl (Error ''Only one rpc stream can be active'') \<and>
     connect opts_ref g = Inl (Error ''Only one rpc stream can be active'') \<and>
     exec dec (Attach opts_ref) g = g"
  by (simp add: createRpcStream_def connect_def exec_def)

theorem second_attachment_rejected_witness:
  "kRpcStream (exec example_encoding (Attach None) (ManyLevelGuest False)) = Some 0 \<and>
   createRpcStream (Some (True, True)) (exec example_encoding (Attach None) (ManyLevelGuest False))
     = Inl (Error ''Only one rpc stream can be active'') \<and>
   exec example_encoding (Attach (Some (True, True)))
     (exec example_encoding (Attach None) (ManyLevelGuest False))
     = exec example_encoding (Attach None) (ManyLevelGuest False)"
proof -
  have a: "kRpcStream (exec example_encoding (Attach None) (ManyLevelGuest False)) = Some 0"
    by (simp add: exec_def createRpcStream_def ManyLevelGuest_def Let_def)
  from second_attachment_rejected [OF a] a show ?thesis by simp
qed

subsection \<open>What each operation leaves alone\<close>

lemma modify_fields [simp]:
  "kIterators (modify h f g) = kIterators g" "kRequests (modify h f g) = kRequests g"
  "kRetry (modify h f g) = kRetry g" "kEncode (modify h f g) = kEncode g"
  "kCleanup (modify h f g) = kCleanup g" "kRpcStream (modify h f g) = kRpcStream g"
  "kRef (modify h f g) = kRef g" "kDb (modify h f g) = kDb g"
  "kExplicitClose (modify h f g) = kExplicitClose g" "proxies (modify h f g) = proxies g"
  "events (modify h f g) = events g" "tasks (modify h f g) = tasks g"
  "length (heap (modify h f g)) = length (heap g)"
  by (simp_all add: modify_def)

lemma modify_heap_same: "h < length (heap g) \<Longrightarrow> heap (modify h f g) ! h = f (heap g ! h)"
  by (simp add: modify_def)

lemma modify_heap_other: "h' \<noteq> h \<Longrightarrow> heap (modify h f g) ! h' = heap g ! h'"
  by (simp add: modify_def)

lemma modify_id: "f (heap g ! h) = heap g ! h \<Longrightarrow> modify h f g = g"
  by (simp add: modify_def)

lemma kWrite_fields [simp]:
  "kIterators (kWrite fr g) = kIterators g" "kRequests (kWrite fr g) = kRequests g"
  "kRetry (kWrite fr g) = kRetry g" "kEncode (kWrite fr g) = kEncode g @ [fr]"
  "kCleanup (kWrite fr g) = kCleanup g" "kRpcStream (kWrite fr g) = kRpcStream g"
  "kRef (kWrite fr g) = kRef g" "kDb (kWrite fr g) = kDb g"
  "kExplicitClose (kWrite fr g) = kExplicitClose g" "proxies (kWrite fr g) = proxies g"
  "heap (kWrite fr g) = heap g" "tasks (kWrite fr g) = tasks g"
  by (simp_all add: kWrite_def Let_def)

lemma kFlushed_fields [simp]:
  "kIterators (kFlushed g) = kIterators g" "kRequests (kFlushed g) = kRequests g"
  "kRetry (kFlushed g) = kRetry g" "kEncode (kFlushed g) = kEncode g"
  "kCleanup (kFlushed g) = kCleanup g" "kRpcStream (kFlushed g) = kRpcStream g"
  "kRef (kFlushed g) = kRef g" "kDb (kFlushed g) = kDb g"
  "kExplicitClose (kFlushed g) = kExplicitClose g" "proxies (kFlushed g) = proxies g"
  "heap (kFlushed g) = heap g" "tasks (kFlushed g) = tasks g"
  by (simp_all add: kFlushed_def)

lemma idmap_remove_unknown: "idmap_get m i = None \<Longrightarrow> idmap_remove i m = (None, m)"
  by (simp add: idmap_remove_def idmap_get_def)

lemma oncallback_unknown: "idmap_get (kRequests g) (res_id r) = None \<Longrightarrow> oncallback r g = g"
  by (simp add: oncallback_def idmap_remove_unknown)

lemma ongetmanycallback_unknown:
  "idmap_get (kRequests g) (res_id r) = None \<Longrightarrow> ongetmanycallback r g = g"
  by (simp add: ongetmanycallback_def idmap_remove_unknown)

lemma oniteratordata_unknown:
  "idmap_get (kIterators g) (res_id r) = None \<Longrightarrow> oniteratordata r g = g"
  by (simp add: oniteratordata_def)

lemma oniteratorend_unknown:
  "idmap_get (kIterators g) (res_id r) = None \<Longrightarrow> oniteratorend r g = g"
  by (simp add: oniteratorend_def)

lemma oniteratordata_stale:
  "idmap_get (kIterators g) (res_id r) = Some h \<Longrightarrow> kSeq (heap g ! h) \<noteq> res_seq r \<Longrightarrow>
   oniteratordata r g = g"
  by (simp add: oniteratordata_def modify_id)

lemma oniteratorend_stale:
  "idmap_get (kIterators g) (res_id r) = Some h \<Longrightarrow> kSeq (heap g ! h) \<noteq> res_seq r \<Longrightarrow>
   oniteratorend r g = g"
  by (simp add: oniteratorend_def modify_id)

lemma idmap_get_Some_size: "idmap_get m i = Some x \<Longrightarrow> idmap_size m \<noteq> 0"
  by (auto simp: idmap_get_def idmap_size_def)

lemma kFlushed_not_flushed: "\<not> isFlushed g \<Longrightarrow> kFlushed g = g"
  by (simp add: kFlushed_def)

lemma it_rel_refl [simp]: "it_rel it it"
  by (simp add: it_rel_def)

lemma it_rel_trans: "it_rel a b \<Longrightarrow> it_rel b c \<Longrightarrow> it_rel a c"
  by (auto simp: it_rel_def)

lemma guest_rel_refl [simp]: "guest_rel g g"
  by (auto simp: guest_rel_def)

lemma guest_rel_trans: "guest_rel a b \<Longrightarrow> guest_rel b c \<Longrightarrow> guest_rel a c"
  unfolding guest_rel_def
  apply (intro conjI allI impI)
     apply simp
    apply simp
   apply (meson it_rel_trans less_le_trans)
  apply (metis it_rel_def not_le_imp_less)
  done

lemma guest_rel_same_heap: "heap g' = heap g \<Longrightarrow> kRetry g' = kRetry g \<Longrightarrow> guest_rel g g'"
  by (auto simp: guest_rel_def)

lemma guest_rel_modify: "it_rel (heap g ! h) (f (heap g ! h)) \<Longrightarrow> guest_rel g (modify h f g)"
proof -
  assume a: "it_rel (heap g ! h) (f (heap g ! h))"
  have "it_rel (heap g ! k) ((heap g)[h := f (heap g ! h)] ! k)" if "k < length (heap g)" for k
    using that a by (cases "k = h") simp_all
  then show ?thesis
    by (auto simp: guest_rel_def modify_def)
qed

lemma guest_rel_kWrite [simp]: "guest_rel g (kWrite fr g)"
  by (simp add: guest_rel_same_heap)

lemma guest_rel_kFlushed [simp]: "guest_rel g (kFlushed g)"
  by (simp add: guest_rel_same_heap)

lemma call_callback_rel: "it_rel it (call_callback e it)"
  by (simp add: call_callback_def it_rel_def fresh_def)

lemma guest_rel_oniteratordata: "guest_rel g (oniteratordata r g)"
  unfolding oniteratordata_def
  by (auto split: option.splits intro!: guest_rel_modify
      simp: it_rel_def fresh_def call_callback_def Let_def)

lemma guest_rel_oniteratorend: "guest_rel g (oniteratorend r g)"
  unfolding oniteratorend_def
  by (auto split: option.splits intro!: guest_rel_modify
      simp: it_rel_def fresh_def call_callback_def Let_def)

lemma guest_rel_oncallback: "guest_rel g (oncallback r g)"
  by (auto simp: oncallback_def Let_def split: prod.splits option.splits intro!: guest_rel_same_heap)

lemma guest_rel_ongetmanycallback: "guest_rel g (ongetmanycallback r g)"
  by (auto simp: ongetmanycallback_def Let_def split: prod.splits option.splits intro!: guest_rel_same_heap)

lemma guest_rel_dispatch: "guest_rel g (dispatch tag r g)"
  by (simp add: dispatch_def guest_rel_oniteratordata guest_rel_oniteratorend
      guest_rel_oncallback guest_rel_ongetmanycallback)

lemma guest_rel_ondata: "guest_rel g (ondata dec data g)"
  unfolding ondata_def
  by (auto split: list.splits option.splits
      intro: guest_rel_trans [OF guest_rel_dispatch guest_rel_kFlushed])

lemma guest_rel_events [simp]: "guest_rel g (g'\<lparr>events := ev\<rparr>) = guest_rel g g'"
  by (simp add: guest_rel_def)

lemma guest_rel_tasks [simp]: "guest_rel g (g'\<lparr>tasks := ts\<rparr>) = guest_rel g g'"
  by (simp add: guest_rel_def)

lemma guest_rel_iterator_close_start: "guest_rel g (iterator_close_start h g)"
  by (simp add: iterator_close_start_def Let_def guest_rel_same_heap)

lemma guest_rel_iterator_close_finish: "guest_rel g (iterator_close_finish h g)"
  unfolding iterator_close_finish_def Let_def
  by (auto split: prod.splits intro!: guest_rel_same_heap)

lemma guest_rel_flag:
  "guest_rel g (modify h (\<lambda>it. it\<lparr>closing := b\<rparr>) g)"
  "guest_rel g (modify h (\<lambda>it. it\<lparr>pendingClose := b\<rparr>) g)"
  by (rule guest_rel_modify, simp add: it_rel_def fresh_def)+

lemma guest_rel_close_call: "guest_rel g (close_call h g)"
proof -
  let ?g1 = "modify h (\<lambda>it. it\<lparr>closing := True\<rparr>) g"
  have a: "guest_rel g ?g1" by (rule guest_rel_flag)
  have b: "guest_rel g (modify h (\<lambda>it. it\<lparr>pendingClose := True\<rparr>) ?g1)"
    by (rule guest_rel_trans [OF a guest_rel_flag(2)])
  have c: "guest_rel g (iterator_close_start h ?g1)"
    by (rule guest_rel_trans [OF a guest_rel_iterator_close_start])
  show ?thesis
    by (simp add: close_call_def Let_def b c)
qed

lemma guest_rel_end_work: "guest_rel g (end_work h g)"
  unfolding end_work_def
  by (auto intro: guest_rel_trans [OF guest_rel_flag(2) guest_rel_iterator_close_start])

lemma guest_rel_run_task: "guest_rel g (run_task g)"
proof -
  have "guest_rel g (iterator_close_finish h (g\<lparr>tasks := ts\<rparr>))" for h ts
    by (rule guest_rel_trans [OF _ guest_rel_iterator_close_finish]) simp
  then show ?thesis
    by (simp add: run_task_def split: list.splits task.splits)
qed

lemma guest_rel_abort_iterator: "guest_rel g (abort_iterator msg code h g)"
proof -
  let ?g1 = "modify h (abort_it msg code) g"
  have "guest_rel g ?g1"
    by (rule guest_rel_modify)
      (simp add: abort_it_def Let_def it_rel_def fresh_def call_callback_def)
  then have "guest_rel g (?g1\<lparr>events := events ?g1 @ [Iterator_close h]\<rparr>)"
    by simp
  then show ?thesis
    unfolding abort_iterator_def Let_def
    by (rule guest_rel_trans [OF _ guest_rel_close_call])
qed

lemma guest_rel_fold_abort: "guest_rel g (fold (abort_iterator msg code) hs g)"
proof (induction hs arbitrary: g)
  case Nil
  show ?case by simp
next
  case (Cons h hs)
  have "guest_rel g (abort_iterator msg code h g)"
    by (rule guest_rel_abort_iterator)
  moreover have "guest_rel (abort_iterator msg code h g)
      (fold (abort_iterator msg code) hs (abort_iterator msg code h g))"
    by (rule Cons.IH)
  ultimately show ?case
    by (auto intro: guest_rel_trans)
qed

lemma guest_rel_kAbortRequests: "guest_rel g (kAbortRequests msg code g)"
proof -
  have "guest_rel g (g\<lparr>kRequests := m, events := ev, kIterators := m'\<rparr>)" for m ev m'
    by (simp add: guest_rel_same_heap)
  then show ?thesis
    unfolding kAbortRequests_def Let_def
    by (auto split: prod.splits intro: guest_rel_trans [OF _ guest_rel_fold_abort])
qed

lemma replay_requests_heap [simp]: "heap (replay_requests reqs g) = heap g"
  by (induction reqs arbitrary: g) simp_all

lemma replay_requests_kRetry [simp]: "kRetry (replay_requests reqs g) = kRetry g"
  by (induction reqs arbitrary: g) simp_all

lemma replay_iterators_heap [simp]: "heap (replay_iterators hs g) = heap g"
  by (induction hs arbitrary: g) simp_all

lemma replay_iterators_kRetry [simp]: "kRetry (replay_iterators hs g) = kRetry g"
  by (induction hs arbitrary: g) simp_all

lemma guest_rel_cleanup: "guest_rel g (cleanup g)"
proof (cases "kRetry g")
  case True
  then show ?thesis
    by (simp add: cleanup_def Let_def guest_rel_same_heap)
next
  case False
  have "guest_rel g (g\<lparr>kRpcStream := None, kEncode := []\<rparr>)"
    by (simp add: guest_rel_same_heap)
  then show ?thesis
    using False
    by (auto simp: cleanup_def Let_def
        intro: guest_rel_trans [OF _ guest_rel_trans [OF guest_rel_kAbortRequests guest_rel_kFlushed]])
qed

lemma guest_rel_guest_close: "guest_rel g (snd (guest_close g))"
proof -
  let ?g1 = "g\<lparr>kExplicitClose := True\<rparr>"
  let ?g2 = "kAbortRequests ''Aborted on database close()'' ''LEVEL_DATABASE_NOT_OPEN'' ?g1"
  have a: "guest_rel g ?g2"
    by (rule guest_rel_trans [OF _ guest_rel_kAbortRequests]) (simp add: guest_rel_same_heap)
  show ?thesis
    unfolding guest_close_def Let_def
    by (auto split: option.splits simp: a)
qed

lemma guest_rel_send_request: "guest_rel g (send_request tag p cb g)"
  unfolding send_request_def Let_def
  by (auto split: prod.splits intro!: guest_rel_trans [OF _ guest_rel_kWrite] guest_rel_same_heap)

lemma guest_rel_ManyLevelGuestIterator: "guest_rel g (snd (ManyLevelGuestIterator opts g))"
  unfolding ManyLevelGuestIterator_def Let_def
  by (auto split: prod.splits simp: guest_rel_def modify_def kWrite_def nth_append)

lemma guest_rel_guest_iterator: "guest_rel g (snd (guest_iterator opts g))"
  using guest_rel_ManyLevelGuestIterator [of g opts]
  by (auto simp: guest_iterator_def Let_def split: prod.splits)

lemma guest_rel_iterator_seek: "guest_rel g (iterator_seek h target g)"
  unfolding iterator_seek_def Let_def
  by (auto intro!: guest_rel_trans [OF _ guest_rel_kWrite] guest_rel_modify
      simp: it_rel_def fresh_def)

lemma fresh_tl: "fresh (it\<lparr>kPending := f # rest\<rparr>) \<Longrightarrow> fresh (it\<lparr>kPending := rest\<rparr>)"
  by (simp add: fresh_def)

lemma guest_rel_heap_update:
  "heap g' = (heap g)[h := it'] \<Longrightarrow> kRetry g' = kRetry g \<Longrightarrow> it_rel (heap g ! h) it' \<Longrightarrow>
   guest_rel g g'"
proof -
  assume a: "heap g' = (heap g)[h := it']" "kRetry g' = kRetry g" "it_rel (heap g ! h) it'"
  have "it_rel (heap g ! k) ((heap g)[h := it'] ! k)" if "k < length (heap g)" for k
    using that a(3) by (cases "k = h") simp_all
  with a show ?thesis
    by (auto simp: guest_rel_def)
qed

lemma modify_modify: "modify h f (modify h f' g) = modify h (\<lambda>it. f (f' it)) g"
  by (cases "h < length (heap g)") (simp_all add: modify_def list_update_beyond)

lemma modify_kWrite: "modify h f (kWrite fr g) = kWrite fr (modify h f g)"
  by (simp add: modify_def kWrite_def Let_def)

lemma guest_rel_kWrite_iff [simp]: "guest_rel g (kWrite fr g') = guest_rel g g'"
  by (simp add: guest_rel_def)

lemma guest_rel_next_body: "guest_rel g (snd (next_body h g))"
proof (cases "kPending (heap g ! h)")
  case Nil
  then show ?thesis by (simp add: next_body_def Let_def)
next
  case (Cons nxt rest)
  show ?thesis
  proof (cases "error_code (res_error nxt)")
    case (Some code)
    with Cons show ?thesis
      by (auto simp: next_body_def Let_def it_rel_def fresh_def intro!: guest_rel_modify)
  next
    case None
    show ?thesis
    proof (cases "res_data nxt")
      case None
      with Cons \<open>error_code (res_error nxt) = None\<close> show ?thesis
        by (auto simp: next_body_def Let_def it_rel_def fresh_def intro!: guest_rel_modify)
    next
      case (Some d)
      obtain key val d2 where te: "take_entry (ireq_options (kRequest (heap g ! h))) d = (key, val, d2)"
        by (cases "take_entry (ireq_options (kRequest (heap g ! h))) d") auto
      show ?thesis
        using Cons Some \<open>error_code (res_error nxt) = None\<close> te
        by (auto simp: next_body_def Let_def modify_modify modify_kWrite it_rel_def fresh_def
            intro!: guest_rel_modify)
    qed
  qed
qed

lemma guest_rel_iterator_next: "guest_rel g (snd (iterator_next h g))"
  unfolding iterator_next_def Let_def
  by (auto simp: guest_rel_next_body it_rel_def fresh_def intro!: guest_rel_modify)

lemma guest_rel_next_resume: "guest_rel g (snd (next_resume h g))"
proof -
  have a: "guest_rel g (modify h (\<lambda>it. it\<lparr>waiter := None\<rparr>) g)"
    by (rule guest_rel_modify) (simp add: it_rel_def fresh_def)
  show ?thesis
    unfolding next_resume_def
    by (auto split: option.splits promise.splits
        intro: a guest_rel_trans [OF a guest_rel_next_body])
qed

lemma guest_rel_settled_next:
  "guest_rel g (snd rg) \<Longrightarrow> guest_rel g (settled_next h rg)"
  by (auto simp: settled_next_def intro: guest_rel_trans [OF _ guest_rel_end_work])

lemma guest_rel_exec: "guest_rel g (exec dec a g)"
  unfolding exec_def
  by (auto split: action.splits sum.splits prod.splits
      simp: guest_get_def guest_getMany_def guest_put_def guest_del_def guest_batch_def
        guest_clear_def guest_rel_send_request guest_rel_guest_iterator guest_rel_iterator_seek
        guest_rel_iterator_next guest_rel_next_resume guest_rel_close_call guest_rel_ondata
        guest_rel_cleanup guest_rel_guest_close guest_rel_run_task guest_rel_settled_next
        forward_def createRpcStream_def Let_def
      intro: guest_rel_same_heap)

lemma guest_rel_run: "guest_rel g (run dec as g)"
  unfolding run_def
proof (induction as arbitrary: g)
  case Nil
  show ?case by simp
next
  case (Cons a as)
  show ?case
    using guest_rel_trans [OF guest_rel_exec Cons.IH] by simp
qed

subsection \<open>Stale frames and seek\<close>

lemma dispatch_stale:
  assumes "idmap_get (kIterators g) (res_id r) = Some h" "kSeq (heap g ! h) \<noteq> res_seq r"
    "tag \<in> {output_iteratorData, output_iteratorError, output_iteratorEnd}"
  shows "dispatch tag r g = g"
proof -
  note s = oniteratordata_stale [OF assms(1,2)] oniteratorend_stale [OF assms(1,2)]
  have "tag = output_iteratorData \<or> tag = output_iteratorError \<or> tag = output_iteratorEnd"
    using assms(3) by simp
  then show ?thesis
    unfolding dispatch_def output_callback_def output_iteratorData_def output_iteratorError_def
      output_iteratorEnd_def output_getManyCallback_def
    by (elim disjE) (simp_all add: s)
qed

lemma ondata_stale:
  assumes "idmap_get (kIterators g) (res_id r) = Some h" "kSeq (heap g ! h) \<noteq> res_seq r"
    "tag \<in> {output_iteratorData, output_iteratorError, output_iteratorEnd}"
    "decoder tag = Some decode" "decode (tag # rest) = Some r"
  shows "ondata decoder (tag # rest) g = g"
proof -
  have "dispatch tag r g = g"
    using assms(1-3) by (rule dispatch_stale)
  moreover have "\<not> isFlushed g"
    using idmap_get_Some_size [OF assms(1)] by (simp add: isFlushed_def)
  ultimately show ?thesis
    using assms(4,5) by (simp add: ondata_def kFlushed_not_flushed)
qed

lemma iterator_seek_effect:
  assumes "h < length (heap g)" "\<not> kErrored (heap g ! h)"
  shows "kSeq (heap (iterator_seek h target g) ! h) = kSeq (heap g ! h) + 1"
    and "kPending (heap (iterator_seek h target g) ! h) = []"
    and "length (heap (iterator_seek h target g)) = length (heap g)"
  using assms by (simp_all add: iterator_seek_def Let_def modify_def)

lemma next_body_Entry:
  assumes "fst (next_body h g) = Entry k v"
  shows "\<exists>f fs d. kPending (heap g ! h) = f # fs \<and> res_data f = Some d \<and>
           k = fst (take_entry (ireq_options (kRequest (heap g ! h))) d) \<and>
           v = fst (snd (take_entry (ireq_options (kRequest (heap g ! h))) d))"
  using assms
  by (auto simp: next_body_def Let_def split: list.splits option.splits if_splits prod.splits)

lemma iterator_next_Entry:
  assumes "fst (iterator_next h g) = Entry k v"
  shows "\<exists>f fs d. kPending (heap g ! h) = f # fs \<and> res_data f = Some d \<and>
           k = fst (take_entry (ireq_options (kRequest (heap g ! h))) d) \<and>
           v = fst (snd (take_entry (ireq_options (kRequest (heap g ! h))) d))"
proof -
  from assms have "fst (next_body h g) = Entry k v"
    by (auto simp: iterator_next_def Let_def split: if_splits)
  then show ?thesis by (rule next_body_Entry)
qed

lemma modify_waiter_read:
  "kPending (heap (modify h (\<lambda>it. it\<lparr>waiter := None\<rparr>) g) ! h) = kPending (heap g ! h)"
  "kRequest (heap (modify h (\<lambda>it. it\<lparr>waiter := None\<rparr>) g) ! h) = kRequest (heap g ! h)"
  by (cases "h < length (heap g)"; simp add: modify_def list_update_beyond)+

lemma next_resume_Entry:
  assumes "fst (next_resume h g) = Entry k v"
  shows "\<exists>f fs d. kPending (heap g ! h) = f # fs \<and> res_data f = Some d \<and>
           k = fst (take_entry (ireq_options (kRequest (heap g ! h))) d) \<and>
           v = fst (snd (take_entry (ireq_options (kRequest (heap g ! h))) d))"
proof -
  from assms have "fst (next_body h (modify h (\<lambda>it. it\<lparr>waiter := None\<rparr>) g)) = Entry k v"
    by (auto simp: next_resume_def split: option.splits promise.splits)
  from next_body_Entry [OF this] show ?thesis
    by (simp add: modify_waiter_read)
qed

lemma after_seek:
  assumes "h < length (heap g)" "\<not> kErrored (heap g ! h)"
  shows "kSeq (heap g ! h) < kSeq (heap (run dec as (iterator_seek h target g)) ! h)"
    and "fresh (heap (run dec as (iterator_seek h target g)) ! h)"
proof -
  let ?s = "iterator_seek h target g"
  have rel: "guest_rel ?s (run dec as ?s)"
    by (rule guest_rel_run)
  have len: "h < length (heap ?s)"
    using assms by (simp add: iterator_seek_effect)
  from rel len have ir: "it_rel (heap ?s ! h) (heap (run dec as ?s) ! h)"
    by (simp add: guest_rel_def)
  have "fresh (heap ?s ! h)"
    using assms by (simp add: fresh_def iterator_seek_effect)
  with ir show "fresh (heap (run dec as ?s) ! h)"
    by (simp add: it_rel_def)
  from ir have "kSeq (heap ?s ! h) \<le> kSeq (heap (run dec as ?s) ! h)"
    by (simp add: it_rel_def)
  then show "kSeq (heap g ! h) < kSeq (heap (run dec as ?s) ! h)"
    using assms by (simp add: iterator_seek_effect)
qed

text \<open>
  C1. Let \<open>h\<close> be a handle of the store. A message \<open>r\<close> whose id names \<open>h\<close> in the
  iterators map and whose seq is not the current seq of \<open>h\<close> changes nothing: neither
  \<open>oniteratordata\<close> nor \<open>oniteratorend\<close>, nor the data handler as a whole for an
  iteratorData, iteratorError or iteratorEnd frame that decodes to \<open>r\<close> (the log of what
  the guest does outwards is part of the state). And after \<open>_seek\<close> on a handle that has
  not errored, whatever happens afterwards (any calls, any frames), the seq of the handle
  is greater than it was before the seek, and every entry that \<open>_next\<close> returns from then on,
  at once or when resumed, is taken from the first message of the pending queue, which
  carries the handle's current seq: no message with the seq of before the seek is its
  source. On a handle that has errored, \<open>_seek\<close> does nothing and \<open>_next\<close> returns no
  entry.
\<close>

theorem stale_seq_discarded:
  assumes "h < length (heap g)"
  shows
    "(idmap_get (kIterators g) (res_id r) = Some h \<and> res_seq r \<noteq> kSeq (heap g ! h) \<longrightarrow>
        oniteratordata r g = g \<and> oniteratorend r g = g \<and>
        (tag \<in> {output_iteratorData, output_iteratorError, output_iteratorEnd} \<and>
         decoder tag = Some decode \<and> decode (tag # rest) = Some r \<longrightarrow>
           ondata decoder (tag # rest) g = g)) \<and>
     (\<not> kErrored (heap g ! h) \<longrightarrow>
        kSeq (heap g ! h) < kSeq (heap (run dec as (iterator_seek h target g)) ! h) \<and>
        (\<forall>k v. fst (iterator_next h (run dec as (iterator_seek h target g))) = Entry k v \<or>
               fst (next_resume h (run dec as (iterator_seek h target g))) = Entry k v \<longrightarrow>
           (\<exists>f fs d. kPending (heap (run dec as (iterator_seek h target g)) ! h) = f # fs \<and>
              res_seq f = kSeq (heap (run dec as (iterator_seek h target g)) ! h) \<and>
              kSeq (heap g ! h) < res_seq f \<and> res_data f = Some d \<and>
              k = fst (take_entry (ireq_options (kRequest (heap (run dec as (iterator_seek h target g)) ! h))) d) \<and>
              v = fst (snd (take_entry (ireq_options (kRequest (heap (run dec as (iterator_seek h target g)) ! h))) d))))) \<and>
     (kErrored (heap g ! h) \<longrightarrow>
        iterator_seek h target g = g \<and> iterator_next h g = (Done, g))"
proof (intro conjI impI allI)
  assume "kErrored (heap g ! h)"
  then show "iterator_seek h target g = g" "iterator_next h g = (Done, g)"
    by (simp_all add: iterator_seek_def iterator_next_def)
next
  assume a: "idmap_get (kIterators g) (res_id r) = Some h \<and> res_seq r \<noteq> kSeq (heap g ! h)"
  then show "oniteratordata r g = g" by (simp add: oniteratordata_stale)
  from a show "oniteratorend r g = g" by (simp add: oniteratorend_stale)
  assume "tag \<in> {output_iteratorData, output_iteratorError, output_iteratorEnd} \<and>
         decoder tag = Some decode \<and> decode (tag # rest) = Some r"
  with a show "ondata decoder (tag # rest) g = g"
    by (intro ondata_stale [where h = h and r = r and decode = decode]) auto
next
  assume "\<not> kErrored (heap g ! h)"
  with assms show "kSeq (heap g ! h) < kSeq (heap (run dec as (iterator_seek h target g)) ! h)"
    by (rule after_seek)
next
  fix k v
  let ?g = "run dec as (iterator_seek h target g)"
  assume ne: "\<not> kErrored (heap g ! h)"
    and "fst (iterator_next h ?g) = Entry k v \<or> fst (next_resume h ?g) = Entry k v"
  then obtain f fs d where e: "kPending (heap ?g ! h) = f # fs" "res_data f = Some d"
      "k = fst (take_entry (ireq_options (kRequest (heap ?g ! h))) d)"
      "v = fst (snd (take_entry (ireq_options (kRequest (heap ?g ! h))) d))"
    using iterator_next_Entry [of h ?g k v] next_resume_Entry [of h ?g k v] by blast
  have "fresh (heap ?g ! h)" and lt: "kSeq (heap g ! h) < kSeq (heap ?g ! h)"
    using after_seek [OF assms ne] by simp_all
  with e(1) have "res_seq f = kSeq (heap ?g ! h)"
    by (simp add: fresh_def)
  with e lt show "\<exists>f fs d. kPending (heap ?g ! h) = f # fs \<and> res_seq f = kSeq (heap ?g ! h) \<and>
      kSeq (heap g ! h) < res_seq f \<and> res_data f = Some d \<and>
      k = fst (take_entry (ireq_options (kRequest (heap ?g ! h))) d) \<and>
      v = fst (snd (take_entry (ireq_options (kRequest (heap ?g ! h))) d))"
    by auto
qed

text \<open>
  An instance: the iterator of \<open>seq_guest\<close> has seq 0, so the message with seq 5 is
  dropped; after a seek, a data frame with seq 0 and one with seq 1 arrive, and \<open>_next\<close>
  returns the entry of the second. The iterator of \<open>errored_guest\<close> has errored.
\<close>

theorem stale_seq_discarded_witness:
  "oniteratordata stale_res seq_guest = seq_guest \<and>
   oniteratorend stale_res seq_guest = seq_guest \<and>
   ondata example_encoding [2, 1, 5, 7] seq_guest = seq_guest \<and>
   fst (iterator_next 0 (run example_encoding [Frame [2, 1, 0, 7], Frame [2, 1, 1, 8]]
          (iterator_seek 0 [6] seq_guest))) = Entry None (Some [8]) \<and>
   (\<exists>f fs. kPending (heap (run example_encoding [Frame [2, 1, 0, 7], Frame [2, 1, 1, 8]]
          (iterator_seek 0 [6] seq_guest)) ! 0) = f # fs \<and> res_seq f = 1 \<and>
          res_data f = Some [[8]]) \<and>
   kErrored (heap errored_guest ! 0) \<and>
   iterator_seek 0 [6] errored_guest = errored_guest \<and>
   iterator_next 0 errored_guest = (Done, errored_guest)"
proof -
  let ?g = "run example_encoding [Frame [2, 1, 0, 7], Frame [2, 1, 1, 8]]
              (iterator_seek 0 [6] seq_guest)"
  have h: "0 < length (heap seq_guest)" by code_simp
  have a: "idmap_get (kIterators seq_guest) (res_id stale_res) = Some 0 \<and>
           res_seq stale_res \<noteq> kSeq (heap seq_guest ! 0)" by code_simp
  have b: "output_iteratorData \<in> {output_iteratorData, output_iteratorError, output_iteratorEnd} \<and>
           example_encoding output_iteratorData = Some example_decode \<and>
           example_decode (output_iteratorData # [1, 5, 7]) = Some stale_res"
    by (simp add: example_encoding_def example_decode_def output_iteratorData_def
        output_iteratorError_def stale_res_def)
  have c: "\<not> kErrored (heap seq_guest ! 0)" by code_simp
  have d: "fst (iterator_next 0 ?g) = Entry None (Some [8])" by code_simp
  have e: "kSeq (heap ?g ! 0) = 1" by code_simp
  have t: "output_iteratorData # [1, 5, 7] = [2, 1, 5, 7]" by code_simp
  note th = stale_seq_discarded [OF h, where r = stale_res and tag = output_iteratorData
      and decoder = example_encoding and decode = example_decode and rest = "[1, 5, 7]"
      and dec = example_encoding and as = "[Frame [2, 1, 0, 7], Frame [2, 1, 1, 8]]"
      and target = "[6]"]
  from th a b t have 1: "oniteratordata stale_res seq_guest = seq_guest \<and>
      oniteratorend stale_res seq_guest = seq_guest \<and>
      ondata example_encoding [2, 1, 5, 7] seq_guest = seq_guest"
    by simp
  from th c d obtain f fs d' where
    "kPending (heap ?g ! 0) = f # fs" "res_seq f = kSeq (heap ?g ! 0)" "res_data f = Some d'"
    by blast
  moreover have "kPending (heap ?g ! 0) = [\<lparr>res_id = 1, res_seq = 1, res_error = None,
      res_value = Null, res_values = [], res_data = Some [[8]]\<rparr>]" by code_simp
  ultimately have 2: "\<exists>f fs. kPending (heap ?g ! 0) = f # fs \<and> res_seq f = 1 \<and> res_data f = Some [[8]]"
    using e by auto
  have he: "0 < length (heap errored_guest)" "kErrored (heap errored_guest ! 0)"
    by code_simp+
  from stale_seq_discarded [OF he(1), where target = "[6]"] he(2)
  have 3: "iterator_seek 0 [6] errored_guest = errored_guest \<and>
      iterator_next 0 errored_guest = (Done, errored_guest)"
    by blast
  from 1 d 2 3 he(2) show ?thesis by blast
qed

subsection \<open>Replies to unknown ids\<close>

lemma dispatch_unknown_request:
  assumes "idmap_get (kRequests g) (res_id r) = None"
    "tag = output_callback \<or> tag = output_getManyCallback"
  shows "dispatch tag r g = g"
  using assms(2)
  unfolding dispatch_def output_callback_def output_iteratorData_def output_iteratorError_def
    output_iteratorEnd_def output_getManyCallback_def
  by (elim disjE)
    (simp_all add: oncallback_unknown [OF assms(1)] ongetmanycallback_unknown [OF assms(1)])

lemma dispatch_unknown_iterator:
  assumes "idmap_get (kIterators g) (res_id r) = None"
    "tag = output_iteratorData \<or> tag = output_iteratorError \<or> tag = output_iteratorEnd"
  shows "dispatch tag r g = g"
  using assms(2)
  unfolding dispatch_def output_callback_def output_iteratorData_def output_iteratorError_def
    output_iteratorEnd_def output_getManyCallback_def
  by (elim disjE)
    (simp_all add: oniteratordata_unknown [OF assms(1)] oniteratorend_unknown [OF assms(1)])

lemma dispatch_unknown:
  assumes "(tag = output_callback \<or> tag = output_getManyCallback) \<and>
             idmap_get (kRequests g) (res_id r) = None \<or>
           (tag = output_iteratorData \<or> tag = output_iteratorError \<or> tag = output_iteratorEnd) \<and>
             idmap_get (kIterators g) (res_id r) = None"
  shows "dispatch tag r g = g"
  using assms
proof
  assume "(tag = output_callback \<or> tag = output_getManyCallback) \<and>
          idmap_get (kRequests g) (res_id r) = None"
  then show ?thesis
    by (intro dispatch_unknown_request) simp_all
next
  assume "(tag = output_iteratorData \<or> tag = output_iteratorError \<or>
          tag = output_iteratorEnd) \<and> idmap_get (kIterators g) (res_id r) = None"
  then show ?thesis
    by (intro dispatch_unknown_iterator) simp_all
qed

text \<open>
  C6 (as amended). A reply whose id has no record in the map it is looked up in is ignored
  by its handler: \<open>oncallback\<close> and \<open>ongetmanycallback\<close> for an id absent from the
  requests map, \<open>oniteratordata\<close> (which also takes the iteratorError messages) and
  \<open>oniteratorend\<close> for an id absent from the iterators map give back the guest as it was:
  no map and no iterator changes, no callback of a request or of an iterator is called, and
  the handlers have no branch that throws. For a frame that decodes to such a reply, the
  switch of the data handler leaves the guest as it was, and the whole handler does one thing
  only, the re-check that follows every decoded frame: if both maps are empty, flush is
  emitted and the keepalive handle released; if a map has an entry, nothing happens at all.
\<close>

theorem unknown_id_ignored:
  "(idmap_get (kRequests g) (res_id r) = None \<longrightarrow>
      oncallback r g = g \<and> ongetmanycallback r g = g) \<and>
   (idmap_get (kIterators g) (res_id r) = None \<longrightarrow>
      oniteratordata r g = g \<and> oniteratorend r g = g) \<and>
   (((tag = output_callback \<or> tag = output_getManyCallback) \<and>
       idmap_get (kRequests g) (res_id r) = None \<or>
     (tag = output_iteratorData \<or> tag = output_iteratorError \<or> tag = output_iteratorEnd) \<and>
       idmap_get (kIterators g) (res_id r) = None) \<and>
    decoder tag = Some decode \<and> decode (tag # rest) = Some r \<longrightarrow>
      dispatch tag r g = g \<and>
      ondata decoder (tag # rest) g =
        (if isFlushed g then g\<lparr>events := events g @ [Emit_flush] @ unref (kRef g)\<rparr> else g))"
proof (intro conjI impI)
  assume "idmap_get (kRequests g) (res_id r) = None"
  then show "oncallback r g = g" "ongetmanycallback r g = g"
    by (simp_all add: oncallback_unknown ongetmanycallback_unknown)
next
  assume "idmap_get (kIterators g) (res_id r) = None"
  then show "oniteratordata r g = g" "oniteratorend r g = g"
    by (simp_all add: oniteratordata_unknown oniteratorend_unknown)
next
  assume a: "((tag = output_callback \<or> tag = output_getManyCallback) \<and>
       idmap_get (kRequests g) (res_id r) = None \<or>
     (tag = output_iteratorData \<or> tag = output_iteratorError \<or> tag = output_iteratorEnd) \<and>
       idmap_get (kIterators g) (res_id r) = None) \<and>
    decoder tag = Some decode \<and> decode (tag # rest) = Some r"
  then show d: "dispatch tag r g = g"
    by (intro dispatch_unknown) simp
  with a show "ondata decoder (tag # rest) g =
        (if isFlushed g then g\<lparr>events := events g @ [Emit_flush] @ unref (kRef g)\<rparr> else g)"
    by (simp add: ondata_def kFlushed_def)
qed

text \<open>
  Instances: \<open>seq_guest\<close> has no request, \<open>one_get_guest\<close> has no iterator, and each
  has an entry in its other map: a reply for request 1 to the first and iterator data for
  iterator 1 to the second change nothing. \<open>idle_guest\<close> has nothing pending: a reply for
  request 9 makes it emit flush and release its keepalive handle, and nothing else.
\<close>

theorem unknown_id_ignored_witness:
  "oncallback stale_res seq_guest = seq_guest \<and>
   ongetmanycallback stale_res seq_guest = seq_guest \<and>
   ondata example_encoding [1, 1, 5, 7] seq_guest = seq_guest \<and>
   oniteratordata stale_res one_get_guest = one_get_guest \<and>
   oniteratorend stale_res one_get_guest = one_get_guest \<and>
   ondata example_encoding [2, 1, 5, 7] one_get_guest = one_get_guest \<and>
   ondata example_encoding [1, 9, 0] idle_guest =
     idle_guest\<lparr>events := events idle_guest @ [Emit_flush, Ref_unref]\<rparr>"
proof -
  have a: "idmap_get (kRequests seq_guest) (res_id stale_res) = None" by code_simp
  have b: "idmap_get (kIterators one_get_guest) (res_id stale_res) = None" by code_simp
  have c: "1 = output_callback \<or> 1 = output_getManyCallback"
      "example_encoding 1 = Some example_decode"
      "example_decode [1, 1, 5, 7] = Some stale_res"
      "2 = output_iteratorData \<or> 2 = output_iteratorError \<or> 2 = output_iteratorEnd"
      "example_encoding 2 = Some example_decode"
      "example_decode [2, 1, 5, 7] = Some stale_res"
    by (simp_all add: example_encoding_def example_decode_def output_iteratorData_def
        output_iteratorError_def output_callback_def stale_res_def)
  have d: "\<not> isFlushed seq_guest" "\<not> isFlushed one_get_guest" by code_simp+
  from unknown_id_ignored [of seq_guest stale_res 1 example_encoding example_decode
      "[1, 5, 7]"] a c(1-3)
  have "oncallback stale_res seq_guest = seq_guest \<and>
      ongetmanycallback stale_res seq_guest = seq_guest \<and>
      ondata example_encoding [1, 1, 5, 7] seq_guest =
        (if isFlushed seq_guest
         then seq_guest\<lparr>events := events seq_guest @ [Emit_flush] @ unref (kRef seq_guest)\<rparr>
         else seq_guest)"
    by blast
  with d have 1: "oncallback stale_res seq_guest = seq_guest \<and>
      ongetmanycallback stale_res seq_guest = seq_guest \<and>
      ondata example_encoding [1, 1, 5, 7] seq_guest = seq_guest"
    by (simp only: if_False)
  from unknown_id_ignored [of one_get_guest stale_res 2 example_encoding
      example_decode "[1, 5, 7]"] b c(4-6)
  have "oniteratordata stale_res one_get_guest = one_get_guest \<and>
      oniteratorend stale_res one_get_guest = one_get_guest \<and>
      ondata example_encoding [2, 1, 5, 7] one_get_guest =
        (if isFlushed one_get_guest
         then one_get_guest\<lparr>events := events one_get_guest @ [Emit_flush] @
                unref (kRef one_get_guest)\<rparr>
         else one_get_guest)"
    by blast
  with d have 2: "oniteratordata stale_res one_get_guest = one_get_guest \<and>
      oniteratorend stale_res one_get_guest = one_get_guest \<and>
      ondata example_encoding [2, 1, 5, 7] one_get_guest = one_get_guest"
    by (simp only: if_False)
  have e: "example_decode [1, 9, 0] = Some (data_res 0\<lparr>res_id := 9, res_data := Some []\<rparr>)"
    by (simp add: example_decode_def output_iteratorError_def data_res_def)
  have f: "idmap_get (kRequests idle_guest) (res_id (data_res 0\<lparr>res_id := 9, res_data := Some []\<rparr>)) = None"
    "isFlushed idle_guest" "unref (kRef idle_guest) = [Ref_unref]"
    by code_simp+
  from unknown_id_ignored [of idle_guest "data_res 0\<lparr>res_id := 9, res_data := Some []\<rparr>" 1
      example_encoding example_decode "[9, 0]"] c(1,2) e f(1)
  have "ondata example_encoding [1, 9, 0] idle_guest =
     (if isFlushed idle_guest
      then idle_guest\<lparr>events := events idle_guest @ [Emit_flush] @ unref (kRef idle_guest)\<rparr>
      else idle_guest)"
    by blast
  with f(2,3) have 3: "ondata example_encoding [1, 9, 0] idle_guest =
     idle_guest\<lparr>events := events idle_guest @ [Emit_flush, Ref_unref]\<rparr>"
    by (simp only: if_True append_Cons append_Nil)
  from 1 2 3 show ?thesis by blast
qed

text \<open>
  C6 as the claim has it fails: \<open>idle_guest\<close> has no record for request 9, and the
  callback frame for id 9 is not without effect on it: flush is emitted and \<open>unref\<close> is
  called on the keepalive handle.
\<close>

theorem unknown_id_flush_counterexample:
  "idmap_get (kRequests idle_guest) 9 = None \<and> events idle_guest = [] \<and>
   events (ondata example_encoding [1, 9, 0] idle_guest) = [Emit_flush, Ref_unref]"
  by code_simp

subsection \<open>Closing an iterator\<close>

lemma flushes_ref [simp]: "filter (\<lambda>e. e = Emit_flush) (ref r) = []"
  by (auto simp: ref_def split: option.splits)

lemma flushes_unref [simp]: "filter (\<lambda>e. e = Emit_flush) (unref r) = []"
  by (auto simp: unref_def split: option.splits)

lemma flushes_kWrite [simp]: "flushes (kWrite fr g) = flushes g"
  by (simp add: flushes_def kWrite_def Let_def)

lemma flushes_kFlushed: "flushes (kFlushed g) = flushes g + (if isFlushed g then 1 else 0)"
  by (simp add: flushes_def kFlushed_def)

lemma flushes_modify [simp]: "flushes (modify h f g) = flushes g"
  by (simp add: flushes_def)

lemma flushes_tasks [simp]: "flushes (g\<lparr>tasks := ts\<rparr>) = flushes g"
  by (simp add: flushes_def)

lemma isFlushed_kFlushed [simp]: "isFlushed (kFlushed g) = isFlushed g"
  by (simp add: isFlushed_def)

lemma isFlushed_kWrite [simp]: "isFlushed (kWrite fr g) = isFlushed g"
  by (simp add: isFlushed_def)

lemma isFlushed_modify [simp]: "isFlushed (modify h f g) = isFlushed g"
  by (simp add: isFlushed_def)

lemma isFlushed_IdMap: "kRequests g = IdMap \<Longrightarrow> kIterators g = IdMap \<Longrightarrow> isFlushed g"
  by (simp add: isFlushed_def IdMap_def idmap_size_def)

lemma kWrite_events_flushed: "isFlushed g \<Longrightarrow> events (kWrite fr g) = events g"
  by (simp add: kWrite_def isFlushed_def Let_def)

lemma iterator_close_start_fields [simp]:
  "kIterators (iterator_close_start h g) = kIterators g"
  "kRequests (iterator_close_start h g) = kRequests g"
  "kRetry (iterator_close_start h g) = kRetry g"
  "kCleanup (iterator_close_start h g) = kCleanup g"
  "kRpcStream (iterator_close_start h g) = kRpcStream g"
  "kRef (iterator_close_start h g) = kRef g" "kDb (iterator_close_start h g) = kDb g"
  "kExplicitClose (iterator_close_start h g) = kExplicitClose g"
  "proxies (iterator_close_start h g) = proxies g"
  "heap (iterator_close_start h g) = heap g"
  "kEncode (iterator_close_start h g) =
     kEncode g @ [F_iteratorClose (ireq_id (kRequest (heap g ! h)))]"
  "tasks (iterator_close_start h g) = tasks g @ [Close_tail h]"
  "flushes (iterator_close_start h g) = flushes g"
  "isFlushed (iterator_close_start h g) = isFlushed g"
  by (simp_all add: iterator_close_start_def Let_def isFlushed_def flushes_def kWrite_def)

lemma iterator_close_start_events_flushed:
  "isFlushed g \<Longrightarrow> events (iterator_close_start h g) = events g"
  by (simp add: iterator_close_start_def Let_def kWrite_events_flushed)

lemma iterator_close_finish_fields [simp]:
  "kRequests (iterator_close_finish h g) = kRequests g"
  "kRetry (iterator_close_finish h g) = kRetry g"
  "kCleanup (iterator_close_finish h g) = kCleanup g"
  "kRpcStream (iterator_close_finish h g) = kRpcStream g"
  "kRef (iterator_close_finish h g) = kRef g" "kDb (iterator_close_finish h g) = kDb g"
  "kExplicitClose (iterator_close_finish h g) = kExplicitClose g"
  "proxies (iterator_close_finish h g) = proxies g"
  "heap (iterator_close_finish h g) = heap g"
  "kEncode (iterator_close_finish h g) = kEncode g"
  "tasks (iterator_close_finish h g) = tasks g"
  by (simp_all add: iterator_close_finish_def Let_def split: prod.splits)

lemma flushes_iterator_close_finish:
  "flushes (iterator_close_finish h g) =
     flushes g + (if isFlushed (iterator_close_finish h g) then 1 else 0)"
  by (simp add: iterator_close_finish_def flushes_kFlushed split: prod.splits)
    (simp add: flushes_def)

lemma iterator_close_finish_flushed:
  "kRequests g = IdMap \<Longrightarrow> kIterators g = IdMap \<Longrightarrow>
   iterator_close_finish h g = g\<lparr>events := events g @ [Emit_flush] @ unref (kRef g)\<rparr>"
  by (simp add: iterator_close_finish_def idmap_remove_def IdMap_def kFlushed_def isFlushed_def
      idmap_size_def idmap_get_def)

lemma close_call_fields [simp]:
  "kIterators (close_call h g) = kIterators g" "kRequests (close_call h g) = kRequests g"
  "kRetry (close_call h g) = kRetry g" "kCleanup (close_call h g) = kCleanup g"
  "kRpcStream (close_call h g) = kRpcStream g"
  "kRef (close_call h g) = kRef g" "kDb (close_call h g) = kDb g"
  "kExplicitClose (close_call h g) = kExplicitClose g"
  "proxies (close_call h g) = proxies g"
  "length (heap (close_call h g)) = length (heap g)"
  "flushes (close_call h g) = flushes g"
  "isFlushed (close_call h g) = isFlushed g"
  by (simp_all add: close_call_def Let_def)

lemma end_work_fields [simp]:
  "kIterators (end_work h g) = kIterators g" "kRequests (end_work h g) = kRequests g"
  "kRetry (end_work h g) = kRetry g" "kCleanup (end_work h g) = kCleanup g"
  "kRpcStream (end_work h g) = kRpcStream g"
  "kRef (end_work h g) = kRef g" "kDb (end_work h g) = kDb g"
  "kExplicitClose (end_work h g) = kExplicitClose g"
  "proxies (end_work h g) = proxies g"
  "length (heap (end_work h g)) = length (heap g)"
  "flushes (end_work h g) = flushes g"
  "isFlushed (end_work h g) = isFlushed g"
  by (simp_all add: end_work_def)

text \<open>
  \<open>close()\<close> on a handle: it writes the iteratorClose frame and leaves the rest of
  \<open>_close\<close> as a task if the handle is not yet closing and has no \<open>next()\<close> in flight.
  What it changes of the handle are the two marks.
\<close>

lemma close_call_kEncode:
  "kEncode (close_call h g) =
     kEncode g @ (if \<not> closing (heap g ! h) \<and> waiter (heap g ! h) = None
                  then [F_iteratorClose (ireq_id (kRequest (heap g ! h)))] else [])"
  by (cases "h < length (heap g)")
    (simp_all add: close_call_def Let_def modify_def list_update_beyond)

lemma close_call_tasks:
  "tasks (close_call h g) =
     tasks g @ (if \<not> closing (heap g ! h) \<and> waiter (heap g ! h) = None
                then [Close_tail h] else [])"
  by (simp add: close_call_def Let_def)

lemma close_call_events_flushed: "isFlushed g \<Longrightarrow> events (close_call h g) = events g"
  by (simp add: close_call_def Let_def iterator_close_start_events_flushed)

lemma close_call_heap_other: "k \<noteq> h \<Longrightarrow> heap (close_call h g) ! k = heap g ! k"
  by (simp add: close_call_def Let_def modify_heap_other)

lemma close_call_heap_same:
  "h < length (heap g) \<Longrightarrow>
   heap (close_call h g) ! h =
     (if closing (heap g ! h) then heap g ! h
      else if waiter (heap g ! h) \<noteq> None
      then (heap g ! h)\<lparr>closing := True, pendingClose := True\<rparr>
      else (heap g ! h)\<lparr>closing := True\<rparr>)"
  by (simp add: close_call_def Let_def modify_def)

text \<open>The body of the second loop of \<open>kAbortRequests\<close>, and the loop.\<close>

lemma abort_iterator_fields [simp]:
  "kIterators (abort_iterator msg code h g) = kIterators g"
  "kRequests (abort_iterator msg code h g) = kRequests g"
  "kRetry (abort_iterator msg code h g) = kRetry g"
  "kCleanup (abort_iterator msg code h g) = kCleanup g"
  "kRpcStream (abort_iterator msg code h g) = kRpcStream g"
  "kRef (abort_iterator msg code h g) = kRef g" "kDb (abort_iterator msg code h g) = kDb g"
  "kExplicitClose (abort_iterator msg code h g) = kExplicitClose g"
  "proxies (abort_iterator msg code h g) = proxies g"
  "length (heap (abort_iterator msg code h g)) = length (heap g)"
  "isFlushed (abort_iterator msg code h g) = isFlushed g"
  by (simp_all add: abort_iterator_def Let_def isFlushed_def)

lemma flushes_abort_iterator [simp]: "flushes (abort_iterator msg code h g) = flushes g"
  by (simp add: abort_iterator_def Let_def) (simp add: flushes_def)

lemma abort_iterator_events:
  "isFlushed g \<Longrightarrow> events (abort_iterator msg code h g) = events g @ [Iterator_close h]"
  by (simp add: abort_iterator_def Let_def close_call_events_flushed isFlushed_def)

lemma abort_it_fields [simp]:
  "closing (abort_it msg code it) = closing it"
  "pendingClose (abort_it msg code it) = pendingClose it"
  "kRequest (abort_it msg code it) = kRequest it"
  "kErrored (abort_it msg code it) = kErrored it"
  "kCallback (abort_it msg code it) = False"
  "waiter (abort_it msg code it) =
     (if kCallback it \<and> waiter it = Some Pending then Some (Rejected (ModuleError msg code))
      else waiter it)"
  "(waiter (abort_it msg code it) = None) = (waiter it = None)"
  by (simp_all add: abort_it_def call_callback_def Let_def)

lemma abort_iterator_heap_other:
  "k \<noteq> h \<Longrightarrow> heap (abort_iterator msg code h g) ! k = heap g ! k"
  by (simp add: abort_iterator_def Let_def close_call_heap_other modify_def)

lemma abort_iterator_heap_same:
  "h < length (heap g) \<Longrightarrow>
   kErrored (heap (abort_iterator msg code h g) ! h) = kErrored (heap g ! h) \<and>
   kCallback (heap (abort_iterator msg code h g) ! h) = False \<and>
   kRequest (heap (abort_iterator msg code h g) ! h) = kRequest (heap g ! h) \<and>
   waiter (heap (abort_iterator msg code h g) ! h) =
     (if kCallback (heap g ! h) \<and> waiter (heap g ! h) = Some Pending
      then Some (Rejected (ModuleError msg code)) else waiter (heap g ! h)) \<and>
   closing (heap (abort_iterator msg code h g) ! h) \<and>
   pendingClose (heap (abort_iterator msg code h g) ! h) =
     (pendingClose (heap g ! h) \<or> \<not> closing (heap g ! h) \<and> waiter (heap g ! h) \<noteq> None)"
  by (simp add: abort_iterator_def Let_def close_call_heap_same modify_def)

lemma abort_iterator_kEncode:
  "h < length (heap g) \<Longrightarrow>
   kEncode (abort_iterator msg code h g) =
     kEncode g @ (if \<not> closing (heap g ! h) \<and> waiter (heap g ! h) = None
                  then [F_iteratorClose (ireq_id (kRequest (heap g ! h)))] else [])"
  by (simp add: abort_iterator_def Let_def close_call_kEncode modify_def)

lemma abort_iterator_tasks:
  "h < length (heap g) \<Longrightarrow>
   tasks (abort_iterator msg code h g) =
     tasks g @ (if \<not> closing (heap g ! h) \<and> waiter (heap g ! h) = None
                then [Close_tail h] else [])"
  by (simp add: abort_iterator_def Let_def close_call_tasks modify_def)

lemma fold_abort_fields [simp]:
  "kIterators (fold (abort_iterator msg code) hs g) = kIterators g"
  "kRequests (fold (abort_iterator msg code) hs g) = kRequests g"
  "kRpcStream (fold (abort_iterator msg code) hs g) = kRpcStream g"
  "kRetry (fold (abort_iterator msg code) hs g) = kRetry g"
  "kRef (fold (abort_iterator msg code) hs g) = kRef g"
  "kCleanup (fold (abort_iterator msg code) hs g) = kCleanup g"
  "kDb (fold (abort_iterator msg code) hs g) = kDb g"
  "kExplicitClose (fold (abort_iterator msg code) hs g) = kExplicitClose g"
  "length (heap (fold (abort_iterator msg code) hs g)) = length (heap g)"
  "flushes (fold (abort_iterator msg code) hs g) = flushes g"
  "isFlushed (fold (abort_iterator msg code) hs g) = isFlushed g"
  by (induction hs arbitrary: g) simp_all

lemma fold_abort_events:
  "isFlushed g \<Longrightarrow>
   events (fold (abort_iterator msg code) hs g) = events g @ map Iterator_close hs"
  by (induction hs arbitrary: g) (simp_all add: abort_iterator_events)

lemma fold_abort_heap_other:
  "k \<notin> set hs \<Longrightarrow> heap (fold (abort_iterator msg code) hs g) ! k = heap g ! k"
  by (induction hs arbitrary: g) (simp_all add: abort_iterator_heap_other)

text \<open>
  A handle that the loop has come to: its \<open>next()\<close> in flight is rejected, if it has one
  that still waits; it is not marked as errored; it is closing, and its \<open>_close\<close> waits
  if a \<open>next()\<close> is in flight.
\<close>

lemma fold_abort_heap_same:
  "k \<in> set hs \<Longrightarrow> k < length (heap g) \<Longrightarrow>
   kErrored (heap (fold (abort_iterator msg code) hs g) ! k) = kErrored (heap g ! k) \<and>
   kCallback (heap (fold (abort_iterator msg code) hs g) ! k) = False \<and>
   waiter (heap (fold (abort_iterator msg code) hs g) ! k) =
     (if kCallback (heap g ! k) \<and> waiter (heap g ! k) = Some Pending
      then Some (Rejected (ModuleError msg code)) else waiter (heap g ! k)) \<and>
   closing (heap (fold (abort_iterator msg code) hs g) ! k) \<and>
   pendingClose (heap (fold (abort_iterator msg code) hs g) ! k) =
     (pendingClose (heap g ! k) \<or> \<not> closing (heap g ! k) \<and> waiter (heap g ! k) \<noteq> None)"
proof (induction hs arbitrary: g)
  case Nil
  then show ?case by simp
next
  case (Cons h hs)
  let ?g1 = "abort_iterator msg code h g"
  have len: "k < length (heap ?g1)"
    using Cons.prems by simp
  show ?case
  proof (cases "k \<in> set hs")
    case True
    note ih = Cons.IH [OF True len]
    show ?thesis
    proof (cases "k = h")
      case True
      with ih abort_iterator_heap_same [of h g msg code] Cons.prems show ?thesis
        by simp
    next
      case False
      with ih show ?thesis
        by (simp add: abort_iterator_heap_other)
    qed
  next
    case False
    with Cons.prems have kh: "k = h" by simp
    from False have "heap (fold (abort_iterator msg code) hs ?g1) ! k = heap ?g1 ! k"
      by (rule fold_abort_heap_other)
    with kh abort_iterator_heap_same [of h g msg code] Cons.prems show ?thesis
      by simp
  qed
qed

text \<open>
  The frames that the loop writes and the tasks that it leaves, when no handle is in the
  list twice and every handle of the list exists.
\<close>

lemma fold_abort_kEncode:
  "distinct hs \<Longrightarrow> \<forall>h \<in> set hs. h < length (heap g) \<Longrightarrow>
   kEncode (fold (abort_iterator msg code) hs g) =
     kEncode g @
     map (\<lambda>h. F_iteratorClose (ireq_id (kRequest (heap g ! h))))
       (filter (\<lambda>h. \<not> closing (heap g ! h) \<and> waiter (heap g ! h) = None) hs)"
proof (induction hs arbitrary: g)
  case Nil
  then show ?case by simp
next
  case (Cons h hs)
  let ?g1 = "abort_iterator msg code h g"
  have same: "heap ?g1 ! k = heap g ! k" if "k \<in> set hs" for k
  proof -
    from that Cons.prems(1) have "k \<noteq> h" by auto
    then show ?thesis by (rule abort_iterator_heap_other)
  qed
  have "kEncode (fold (abort_iterator msg code) hs ?g1) =
     kEncode ?g1 @
     map (\<lambda>h. F_iteratorClose (ireq_id (kRequest (heap ?g1 ! h))))
       (filter (\<lambda>h. \<not> closing (heap ?g1 ! h) \<and> waiter (heap ?g1 ! h) = None) hs)"
    using Cons.prems by (intro Cons.IH) simp_all
  also have "filter (\<lambda>h. \<not> closing (heap ?g1 ! h) \<and> waiter (heap ?g1 ! h) = None) hs =
     filter (\<lambda>h. \<not> closing (heap g ! h) \<and> waiter (heap g ! h) = None) hs"
    by (rule filter_cong) (simp_all add: same)
  also have "map (\<lambda>h. F_iteratorClose (ireq_id (kRequest (heap ?g1 ! h))))
       (filter (\<lambda>h. \<not> closing (heap g ! h) \<and> waiter (heap g ! h) = None) hs) =
     map (\<lambda>h. F_iteratorClose (ireq_id (kRequest (heap g ! h))))
       (filter (\<lambda>h. \<not> closing (heap g ! h) \<and> waiter (heap g ! h) = None) hs)"
    by (rule map_cong) (simp_all add: same)
  finally show ?case
    using Cons.prems by (simp add: abort_iterator_kEncode)
qed

lemma fold_abort_tasks:
  "distinct hs \<Longrightarrow> \<forall>h \<in> set hs. h < length (heap g) \<Longrightarrow>
   tasks (fold (abort_iterator msg code) hs g) =
     tasks g @
     map Close_tail (filter (\<lambda>h. \<not> closing (heap g ! h) \<and> waiter (heap g ! h) = None) hs)"
proof (induction hs arbitrary: g)
  case Nil
  then show ?case by simp
next
  case (Cons h hs)
  let ?g1 = "abort_iterator msg code h g"
  have same: "heap ?g1 ! k = heap g ! k" if "k \<in> set hs" for k
  proof -
    from that Cons.prems(1) have "k \<noteq> h" by auto
    then show ?thesis by (rule abort_iterator_heap_other)
  qed
  have "tasks (fold (abort_iterator msg code) hs ?g1) =
     tasks ?g1 @
     map Close_tail
       (filter (\<lambda>h. \<not> closing (heap ?g1 ! h) \<and> waiter (heap ?g1 ! h) = None) hs)"
    using Cons.prems by (intro Cons.IH) simp_all
  also have "filter (\<lambda>h. \<not> closing (heap ?g1 ! h) \<and> waiter (heap ?g1 ! h) = None) hs =
     filter (\<lambda>h. \<not> closing (heap g ! h) \<and> waiter (heap g ! h) = None) hs"
    by (rule filter_cong) (simp_all add: same)
  finally show ?case
    using Cons.prems by (simp add: abort_iterator_tasks)
qed

lemma kAbortRequests_fields [simp]:
  "kRequests (kAbortRequests msg code g) = IdMap"
  "kIterators (kAbortRequests msg code g) = IdMap"
  "kRpcStream (kAbortRequests msg code g) = kRpcStream g"
  "kRetry (kAbortRequests msg code g) = kRetry g"
  "kRef (kAbortRequests msg code g) = kRef g"
  "kCleanup (kAbortRequests msg code g) = kCleanup g"
  "kDb (kAbortRequests msg code g) = kDb g"
  "kExplicitClose (kAbortRequests msg code g) = kExplicitClose g"
  "length (heap (kAbortRequests msg code g)) = length (heap g)"
  "isFlushed (kAbortRequests msg code g)"
  by (simp_all add: kAbortRequests_def idmap_clear_def IdMap_def Let_def isFlushed_def
      idmap_size_def)

lemma flushes_kAbortRequests [simp]: "flushes (kAbortRequests msg code g) = flushes g"
  by (simp add: kAbortRequests_def idmap_clear_def Let_def) (simp add: flushes_def)

lemma kAbortRequests_events:
  "events (kAbortRequests msg code g) =
     events g @
     map (\<lambda>req. Callback (req_callback req) (Inl (ModuleError msg code)))
       (idmap_values (kRequests g)) @
     map Iterator_close (idmap_values (kIterators g))"
  by (simp add: kAbortRequests_def idmap_clear_def Let_def fold_abort_events isFlushed_def
      idmap_size_def)

lemma kAbortRequests_heap_same:
  "k \<in> set (idmap_values (kIterators g)) \<Longrightarrow> k < length (heap g) \<Longrightarrow>
   kErrored (heap (kAbortRequests msg code g) ! k) = kErrored (heap g ! k) \<and>
   kCallback (heap (kAbortRequests msg code g) ! k) = False \<and>
   waiter (heap (kAbortRequests msg code g) ! k) =
     (if kCallback (heap g ! k) \<and> waiter (heap g ! k) = Some Pending
      then Some (Rejected (ModuleError msg code)) else waiter (heap g ! k)) \<and>
   closing (heap (kAbortRequests msg code g) ! k) \<and>
   pendingClose (heap (kAbortRequests msg code g) ! k) =
     (pendingClose (heap g ! k) \<or> \<not> closing (heap g ! k) \<and> waiter (heap g ! k) \<noteq> None)"
  using fold_abort_heap_same [of k "idmap_values (kIterators g)" _ msg code]
  by (simp add: kAbortRequests_def idmap_clear_def Let_def)

lemma kAbortRequests_kEncode:
  "distinct (idmap_values (kIterators g)) \<Longrightarrow>
   \<forall>h \<in> set (idmap_values (kIterators g)). h < length (heap g) \<Longrightarrow>
   kEncode (kAbortRequests msg code g) =
     kEncode g @
     map (\<lambda>h. F_iteratorClose (ireq_id (kRequest (heap g ! h))))
       (filter (\<lambda>h. \<not> closing (heap g ! h) \<and> waiter (heap g ! h) = None)
          (idmap_values (kIterators g)))"
  by (simp add: kAbortRequests_def idmap_clear_def Let_def fold_abort_kEncode)

lemma kAbortRequests_tasks:
  "distinct (idmap_values (kIterators g)) \<Longrightarrow>
   \<forall>h \<in> set (idmap_values (kIterators g)). h < length (heap g) \<Longrightarrow>
   tasks (kAbortRequests msg code g) =
     tasks g @
     map Close_tail
       (filter (\<lambda>h. \<not> closing (heap g ! h) \<and> waiter (heap g ! h) = None)
          (idmap_values (kIterators g)))"
  by (simp add: kAbortRequests_def idmap_clear_def Let_def fold_abort_tasks)

text \<open>
  The turn of a task when both maps are empty: the rest of \<open>_close\<close> finds nothing to
  remove, emits flush and releases the keepalive handle.
\<close>

lemma run_task_flushed:
  "kRequests g = IdMap \<Longrightarrow> kIterators g = IdMap \<Longrightarrow>
   run_task g =
     (case tasks g of [] \<Rightarrow> g
      | t # ts \<Rightarrow> g\<lparr>tasks := ts, events := events g @ [Emit_flush] @ unref (kRef g)\<rparr>)"
  by (simp add: run_task_def iterator_close_finish_flushed split: list.splits task.splits)

lemma ticks_flushed:
  "kRequests g = IdMap \<Longrightarrow> kIterators g = IdMap \<Longrightarrow>
   events (run dec (replicate n Tick) g) =
     events g @ concat (replicate (min n (length (tasks g))) ([Emit_flush] @ unref (kRef g))) \<and>
   tasks (run dec (replicate n Tick) g) = drop n (tasks g) \<and>
   kRequests (run dec (replicate n Tick) g) = IdMap \<and>
   kIterators (run dec (replicate n Tick) g) = IdMap \<and>
   heap (run dec (replicate n Tick) g) = heap g \<and>
   kEncode (run dec (replicate n Tick) g) = kEncode g"
proof (induction n arbitrary: g)
  case 0
  then show ?case by (simp add: run_def)
next
  case (Suc n)
  have r: "run dec (Tick # replicate n Tick) g = run dec (replicate n Tick) (run_task g)"
    by (simp add: run_def exec_def)
  show ?case
  proof (cases "tasks g")
    case Nil
    with Suc.prems have "run_task g = g" by (simp add: run_task_flushed)
    with Suc.IH [OF Suc.prems] Nil show ?thesis by (simp add: r)
  next
    case (Cons t ts)
    let ?g1 = "g\<lparr>tasks := ts, events := events g @ [Emit_flush] @ unref (kRef g)\<rparr>"
    from Cons Suc.prems have g1: "run_task g = ?g1" by (simp add: run_task_flushed)
    have "kRequests ?g1 = IdMap" "kIterators ?g1 = IdMap"
      using Suc.prems by simp_all
    from Suc.IH [OF this] Cons show ?thesis
      by (simp add: r g1)
  qed
qed

subsection \<open>The flush event\<close>

lemma flushes_oncallback [simp]: "flushes (oncallback r g) = flushes g"
  by (simp add: flushes_def oncallback_def Let_def split: prod.splits option.splits)

lemma flushes_ongetmanycallback [simp]: "flushes (ongetmanycallback r g) = flushes g"
  by (simp add: flushes_def ongetmanycallback_def Let_def split: prod.splits option.splits)

lemma flushes_oniteratordata [simp]: "flushes (oniteratordata r g) = flushes g"
  by (simp add: oniteratordata_def split: option.splits)

lemma flushes_oniteratorend [simp]: "flushes (oniteratorend r g) = flushes g"
  by (simp add: oniteratorend_def split: option.splits)

lemma flushes_dispatch [simp]: "flushes (dispatch tag r g) = flushes g"
  by (simp add: dispatch_def)

lemma flushes_upd [simp]:
  "flushes (g\<lparr>kIterators := a\<rparr>) = flushes g" "flushes (g\<lparr>kRequests := b\<rparr>) = flushes g"
  "flushes (g\<lparr>kEncode := c\<rparr>) = flushes g" "flushes (g\<lparr>kCleanup := d\<rparr>) = flushes g"
  "flushes (g\<lparr>kRpcStream := e\<rparr>) = flushes g" "flushes (g\<lparr>kRef := f\<rparr>) = flushes g"
  "flushes (g\<lparr>kDb := k\<rparr>) = flushes g" "flushes (g\<lparr>kExplicitClose := l\<rparr>) = flushes g"
  "flushes (g\<lparr>heap := m\<rparr>) = flushes g" "flushes (g\<lparr>proxies := n\<rparr>) = flushes g"
  by (simp_all add: flushes_def)

lemma flushes_log: "x \<noteq> Emit_flush \<Longrightarrow> flushes (g\<lparr>events := events g @ [x]\<rparr>) = flushes g"
  by (simp add: flushes_def)

lemma flushes_ondata:
  "flushes (ondata dec data g) =
     flushes g + (if decoded dec data \<noteq> None \<and> isFlushed (ondata dec data g) then 1 else 0)"
  by (simp add: ondata_def decoded_def flushes_kFlushed split: list.splits option.splits)

lemma flushes_replay_requests [simp]: "flushes (replay_requests reqs g) = flushes g"
  by (induction reqs arbitrary: g) simp_all

lemma flushes_replay_iterators [simp]: "flushes (replay_iterators hs g) = flushes g"
  by (induction hs arbitrary: g) simp_all

lemma flushes_cleanup: "flushes (cleanup g) = flushes g + (if kRetry g then 0 else 1)"
  by (simp add: cleanup_def Let_def flushes_kFlushed)

lemma flushes_guest_close: "flushes (snd (guest_close g)) = flushes g"
  by (simp add: guest_close_def Let_def flushes_log split: option.splits)

lemma isFlushed_guest_close: "isFlushed (snd (guest_close g))"
  by (simp add: guest_close_def Let_def isFlushed_def IdMap_def idmap_size_def
      split: option.splits)

lemma flushes_send_request [simp]: "flushes (send_request tag p cb g) = flushes g"
  by (simp add: send_request_def Let_def flushes_log split: prod.splits)

lemma flushes_guest_iterator [simp]: "flushes (snd (guest_iterator opts g)) = flushes g"
  by (simp add: guest_iterator_def ManyLevelGuestIterator_def Let_def flushes_log
      split: prod.splits)

lemma flushes_iterator_seek [simp]: "flushes (iterator_seek h target g) = flushes g"
  by (simp add: iterator_seek_def Let_def)

lemma flushes_next_body [simp]: "flushes (snd (next_body h g)) = flushes g"
  by (simp add: next_body_def Let_def split: list.splits option.splits prod.splits)

lemma flushes_iterator_next [simp]: "flushes (snd (iterator_next h g)) = flushes g"
  by (simp add: iterator_next_def Let_def)

lemma flushes_next_resume [simp]: "flushes (snd (next_resume h g)) = flushes g"
  by (simp add: next_resume_def split: option.splits promise.splits)

lemma flushes_settled_next [simp]: "flushes (settled_next h rg) = flushes (snd rg)"
  by (simp add: settled_next_def)

lemma flushes_run_task:
  "flushes (run_task g) =
     flushes g + (if tasks g \<noteq> [] \<and> isFlushed (run_task g) then 1 else 0)"
  by (simp add: run_task_def flushes_iterator_close_finish split: list.splits task.splits)

text \<open>What each action adds to the number of flush events.\<close>

lemma flushes_exec:
  "flushes (exec dec a g) =
     flushes g +
     (if (case a of
            Frame data \<Rightarrow> decoded dec data \<noteq> None \<and> isFlushed (exec dec a g)
          | Finish \<Rightarrow> kRpcStream g \<noteq> None \<and> \<not> kRetry g
          | Tick \<Rightarrow> tasks g \<noteq> [] \<and> isFlushed (exec dec a g)
          | _ \<Rightarrow> False)
      then 1 else 0)"
proof (cases a)
  case (Frame data)
  then show ?thesis by (simp add: exec_def flushes_ondata)
next
  case Finish
  then show ?thesis by (simp add: exec_def flushes_cleanup)
next
  case Tick
  then show ?thesis by (simp add: exec_def flushes_run_task)
next
  case (Forward kb vb)
  then show ?thesis by (auto simp: exec_def forward_def split: sum.splits if_splits)
next
  case (Attach r)
  then show ?thesis
    by (auto simp: exec_def createRpcStream_def Let_def split: sum.splits option.splits)
next
  case Close
  then show ?thesis by (simp add: exec_def flushes_guest_close)
qed (simp_all add: exec_def guest_get_def guest_getMany_def guest_put_def guest_del_def
    guest_batch_def guest_clear_def)




subsection \<open>Transport finish with retry\<close>

lemma replay_requests_fields [simp]:
  "kIterators (replay_requests reqs g) = kIterators g"
  "kRequests (replay_requests reqs g) = kRequests g"
  "kRpcStream (replay_requests reqs g) = kRpcStream g"
  "kEncode (replay_requests reqs g) = kEncode g @ map F_request reqs"
  by (induction reqs arbitrary: g) simp_all

lemma replay_iterators_fields [simp]:
  "kIterators (replay_iterators hs g) = kIterators g"
  "kRequests (replay_iterators hs g) = kRequests g"
  "kRpcStream (replay_iterators hs g) = kRpcStream g"
  "kEncode (replay_iterators hs g) = kEncode g @ map (\<lambda>h. F_iterator (kRequest (heap g ! h))) hs"
  by (induction hs arbitrary: g) simp_all

text \<open>
  C2. With retry, the function in \<open>kCleanup\<close> (run when the transport finishes) keeps the
  requests map, the iterators map and the iterators as they are, detaches the stream, and
  writes to the new encoder one frame for every record of the requests map and then one for
  every record of the iterators map, in the order of the maps; the frame of an iterator
  carries its record as it is then, with its seq, bookmark and pending seek. A next
  \<open>createRpcStream\<close> succeeds and attaches a proxy that reads from this encoder, the
  frames still in it.
\<close>

theorem retry_preserves_and_replays:
  "kRetry g \<Longrightarrow>
     kRequests (cleanup g) = kRequests g \<and> kIterators (cleanup g) = kIterators g \<and>
     heap (cleanup g) = heap g \<and> kRpcStream (cleanup g) = None \<and>
     kEncode (cleanup g) =
       map F_request (idmap_values (kRequests g)) @
       map (\<lambda>h. F_iterator (kRequest (heap g ! h))) (idmap_values (kIterators g)) \<and>
     (kRpcStream g \<noteq> None \<longrightarrow> exec dec Finish g = cleanup g) \<and>
     (\<exists>p g'. createRpcStream opts_ref (cleanup g) = Inr (p, g') \<and> kRpcStream g' = Some p \<and>
        kEncode g' = kEncode (cleanup g) \<and> kRequests g' = kRequests g \<and>
        kIterators g' = kIterators g \<and> heap g' = heap g)"
  by (simp add: cleanup_def Let_def exec_def createRpcStream_def)

text \<open>
  An instance: \<open>retry_guest\<close> replays its \<open>get\<close> and its iterator, the latter with
  seq 1, no bookmark and the pending seek to key 6.
\<close>

theorem retry_preserves_and_replays_witness:
  "kRetry retry_guest \<and> exec example_encoding Finish retry_guest = cleanup retry_guest \<and>
   kRequests (cleanup retry_guest) = kRequests retry_guest \<and>
   kIterators (cleanup retry_guest) = kIterators retry_guest \<and>
   kEncode (cleanup retry_guest) =
     [F_request \<lparr>req_tag = input_get, req_id = 1, req_payload = P_key [1], req_callback = 0\<rparr>,
      F_iterator \<lparr>ireq_id = 1, ireq_seq = 1, ireq_options = example_options\<lparr>opt_keys := True\<rparr>,
        ireq_consumed = 0, ireq_bookmark = None, ireq_seek = Some [6]\<rparr>]"
proof -
  have a: "kRetry retry_guest" by code_simp
  have b: "map F_request (idmap_values (kRequests retry_guest)) @
       map (\<lambda>h. F_iterator (kRequest (heap retry_guest ! h))) (idmap_values (kIterators retry_guest)) =
     [F_request \<lparr>req_tag = input_get, req_id = 1, req_payload = P_key [1], req_callback = 0\<rparr>,
      F_iterator \<lparr>ireq_id = 1, ireq_seq = 1, ireq_options = example_options\<lparr>opt_keys := True\<rparr>,
        ireq_consumed = 0, ireq_bookmark = None, ireq_seek = Some [6]\<rparr>]"
    by code_simp
  have c: "kRpcStream retry_guest \<noteq> None" by code_simp
  from retry_preserves_and_replays [OF a, of example_encoding None] a b c show ?thesis
    by simp
qed

subsection \<open>The handles of the iterators map\<close>

lemma update_values:
  "distinct (map snd al) \<Longrightarrow> v \<notin> set (map snd al) \<Longrightarrow>
   distinct (map snd (AList.update k v al)) \<and>
   set (map snd (AList.update k v al)) \<subseteq> insert v (set (map snd al))"
  by (induction al) auto

lemma delete_values:
  "distinct (map snd al) \<Longrightarrow>
   distinct (map snd (AList.delete k al)) \<and>
   set (map snd (AList.delete k al)) \<subseteq> set (map snd al)"
  by (induction al) auto

lemma handles_ok_same:
  "kIterators g' = kIterators g \<Longrightarrow> length (heap g) \<le> length (heap g') \<Longrightarrow>
   handles_ok g \<Longrightarrow> handles_ok g'"
  by (auto simp: handles_ok_def)

lemma handles_ok_IdMap: "kIterators g = IdMap \<Longrightarrow> handles_ok g"
  by (simp add: handles_ok_def idmap_values_def IdMap_def)

lemma handles_ok_ManyLevelGuestIterator:
  assumes "handles_ok g"
  shows "handles_ok (snd (ManyLevelGuestIterator opts g))"
proof -
  let ?h = "length (heap g)"
  let ?al = "idmap_map (kIterators g)"
  let ?g' = "snd (ManyLevelGuestIterator opts g)"
  from assms have d: "distinct (map snd ?al)" and b: "\<forall>h \<in> set (map snd ?al). h < ?h"
    by (simp_all add: handles_ok_def idmap_values_def)
  from b have "?h \<notin> set (map snd ?al)" by auto
  note u = update_values [OF d this]
  have k: "\<exists>i. idmap_values (kIterators ?g') = map snd (AList.update i ?h ?al)"
    by (auto simp add: ManyLevelGuestIterator_def Let_def idmap_add_def idmap_values_def
        split: prod.splits)
  have l: "length (heap ?g') = Suc ?h"
    by (simp add: ManyLevelGuestIterator_def Let_def split: prod.splits)
  from k obtain i where i: "idmap_values (kIterators ?g') = map snd (AList.update i ?h ?al)"
    by blast
  from u [of i] have d': "distinct (map snd (AList.update i ?h ?al))"
    and s': "set (map snd (AList.update i ?h ?al)) \<subseteq> insert ?h (set (map snd ?al))"
    by blast+
  have b': "\<forall>h \<in> set (map snd (AList.update i ?h ?al)). h < Suc ?h"
  proof
    fix x assume "x \<in> set (map snd (AList.update i ?h ?al))"
    with s' have "x = ?h \<or> x \<in> set (map snd ?al)" by blast
    with b show "x < Suc ?h" by (auto simp: less_Suc_eq)
  qed
  from d' b' have "distinct (map snd (AList.update i ?h ?al))"
    "\<forall>h \<in> set (map snd (AList.update i ?h ?al)). h < Suc ?h"
    by blast+
  then show ?thesis
    by (simp add: handles_ok_def i l)
qed

lemma handles_ok_iterator_close_finish:
  assumes "handles_ok g"
  shows "handles_ok (iterator_close_finish h g)"
proof -
  let ?al = "idmap_map (kIterators g)"
  let ?i = "ireq_id (kRequest (heap g ! h))"
  from assms have d: "distinct (map snd ?al)"
    and b: "\<forall>h \<in> set (map snd ?al). h < length (heap g)"
    by (simp_all add: handles_ok_def idmap_values_def)
  from delete_values [OF d, of ?i] b
  have d': "distinct (map snd (AList.delete ?i ?al))"
    and b': "\<forall>h \<in> set (map snd (AList.delete ?i ?al)). h < length (heap g)"
    by blast+
  have "idmap_values (kIterators (iterator_close_finish h g)) = map snd ?al \<or>
      idmap_values (kIterators (iterator_close_finish h g)) = map snd (AList.delete ?i ?al)"
    by (simp add: iterator_close_finish_def idmap_remove_def idmap_values_def
        split: option.splits)
  then show ?thesis
  proof
    assume a: "idmap_values (kIterators (iterator_close_finish h g)) = map snd ?al"
    from d b show ?thesis by (simp add: handles_ok_def a)
  next
    assume a: "idmap_values (kIterators (iterator_close_finish h g)) =
      map snd (AList.delete ?i ?al)"
    from d' b' show ?thesis by (simp add: handles_ok_def a)
  qed
qed

lemma handles_ok_guest_iterator:
  assumes "handles_ok g"
  shows "handles_ok (snd (guest_iterator opts g))"
proof -
  have "snd (guest_iterator opts g) =
      (if kDb g then g\<lparr>events := events g @ [Db_call input_iterator (P_options opts)]\<rparr>
       else snd (ManyLevelGuestIterator opts g))"
    by (simp add: guest_iterator_def split: prod.splits)
  with assms handles_ok_ManyLevelGuestIterator [OF assms, of opts] show ?thesis
    by (simp add: handles_ok_def)
qed

lemma kIterators_ondata [simp]: "kIterators (ondata dec data g) = kIterators g"
  by (simp add: ondata_def dispatch_def oncallback_def ongetmanycallback_def
      oniteratordata_def oniteratorend_def Let_def
      split: list.splits option.splits prod.splits)

lemma kIterators_send_request [simp]: "kIterators (send_request tag p cb g) = kIterators g"
  by (simp add: send_request_def Let_def split: prod.splits)

lemma kIterators_iterator_seek [simp]: "kIterators (iterator_seek h target g) = kIterators g"
  by (simp add: iterator_seek_def Let_def)

lemma kIterators_next_body [simp]: "kIterators (snd (next_body h g)) = kIterators g"
  by (simp add: next_body_def Let_def split: list.splits option.splits prod.splits)

lemma kIterators_iterator_next [simp]: "kIterators (snd (iterator_next h g)) = kIterators g"
  by (simp add: iterator_next_def Let_def)

lemma kIterators_next_resume [simp]: "kIterators (snd (next_resume h g)) = kIterators g"
  by (simp add: next_resume_def split: option.splits promise.splits)

lemma kIterators_settled_next [simp]: "kIterators (settled_next h rg) = kIterators (snd rg)"
  by (simp add: settled_next_def)

text \<open>
  \<open>handles_ok\<close> holds of a new guest and is kept by every action: it holds of every state
  that a guest comes to.
\<close>

lemma handles_ok_exec:
  assumes "handles_ok g"
  shows "handles_ok (exec dec a g)"
proof -
  have len: "length (heap g) \<le> length (heap (exec dec a g))"
    using guest_rel_exec [of g dec a] by (simp add: guest_rel_def)
  have same: "handles_ok (exec dec a g)" if "kIterators (exec dec a g) = kIterators g"
    using that len assms by (rule handles_ok_same)
  show ?thesis
  proof (cases a)
    case (NewIterator opts)
    with assms show ?thesis
      by (simp add: exec_def handles_ok_guest_iterator)
  next
    case Finish
    show ?thesis
    proof (cases "kRpcStream g \<noteq> None \<and> \<not> kRetry g")
      case True
      with Finish have "kIterators (exec dec a g) = IdMap"
        by (auto simp: exec_def cleanup_def Let_def)
      then show ?thesis by (rule handles_ok_IdMap)
    next
      case False
      with Finish have "kIterators (exec dec a g) = kIterators g"
        by (auto simp: exec_def cleanup_def Let_def)
      then show ?thesis by (rule same)
    qed
  next
    case Close
    then have "kIterators (exec dec a g) = IdMap"
      by (simp add: exec_def guest_close_def Let_def split: option.splits)
    then show ?thesis by (rule handles_ok_IdMap)
  next
    case Tick
    have "handles_ok (g\<lparr>tasks := ts\<rparr>)" for ts
      using assms by (simp add: handles_ok_def)
    with Tick assms show ?thesis
      by (simp add: exec_def run_task_def handles_ok_iterator_close_finish
          split: list.splits task.splits)
  next
    case (Forward kb vb)
    then have "kIterators (exec dec a g) = kIterators g"
      by (auto simp: exec_def forward_def split: sum.splits if_splits)
    then show ?thesis by (rule same)
  next
    case (Attach r)
    then have "kIterators (exec dec a g) = kIterators g"
      by (auto simp: exec_def createRpcStream_def Let_def split: sum.splits option.splits)
    then show ?thesis by (rule same)
  qed (rule same, simp add: exec_def guest_get_def guest_getMany_def guest_put_def
      guest_del_def guest_batch_def guest_clear_def)+
qed

lemma handles_ok_run: "handles_ok g \<Longrightarrow> handles_ok (run dec as g)"
  unfolding run_def by (induction as arbitrary: g) (simp_all add: handles_ok_exec)

lemma handles_ok_reached: "handles_ok (run dec as (ManyLevelGuest retry))"
  by (rule handles_ok_run) (simp add: handles_ok_def ManyLevelGuest_def idmap_values_def IdMap_def)

subsection \<open>Transport finish without retry\<close>

lemma next_resume_Rejected:
  "waiter (heap g ! h) = Some (Rejected e) \<Longrightarrow> fst (next_resume h g) = Throw e"
  by (simp add: next_resume_def)

lemma cleanup_no_retry:
  "\<not> kRetry g \<Longrightarrow>
   cleanup g =
     kFlushed (kAbortRequests ''Connection to leader lost'' ''LEVEL_CONNECTION_LOST''
       (g\<lparr>kRpcStream := None, kEncode := []\<rparr>))"
  by (simp add: cleanup_def Let_def)

lemma kFlushed_events_flushed:
  "isFlushed g \<Longrightarrow> events (kFlushed g) = events g @ [Emit_flush] @ unref (kRef g)"
  by (simp add: kFlushed_def)




subsection \<open>Closing the guest\<close>

lemma idmap_values_IdMap [simp]: "idmap_values IdMap = []"
  by (simp add: idmap_values_def IdMap_def)

lemma kAbortRequests_empty:
  "kRequests g = IdMap \<Longrightarrow> kIterators g = IdMap \<Longrightarrow> kAbortRequests msg code g = g"
  by (simp add: kAbortRequests_def idmap_clear_def Let_def IdMap_def idmap_values_def)

text \<open>The function in \<open>kCleanup\<close> when both maps are empty.\<close>

lemma cleanup_empty:
  assumes "kRequests g = IdMap" "kIterators g = IdMap"
  shows "events (cleanup g) =
           events g @ (if kRetry g then [] else [Emit_flush] @ unref (kRef g))"
    "kRpcStream (cleanup g) = None"
    "tasks (cleanup g) = tasks g" "heap (cleanup g) = heap g"
  using assms
  by (simp_all add: cleanup_def Let_def kAbortRequests_empty kFlushed_def isFlushed_IdMap)

lemma guest_close_fields:
  "snd (guest_close g) =
     (let g2 = kAbortRequests ''Aborted on database close()'' ''LEVEL_DATABASE_NOT_OPEN''
                 (g\<lparr>kExplicitClose := True\<rparr>)
      in g2\<lparr>events := events g2 @
            (case kRpcStream g of Some p \<Rightarrow> [Stream_destroy p]
             | None \<Rightarrow> if kDb g then [Db_close] else [])\<rparr>)"
  "fst (guest_close g) = (if kRpcStream g = None then None else Some TypeError)"
  by (simp_all add: guest_close_def Let_def split: option.splits)

text \<open>
  C7 (as amended). \<open>_close\<close> of the guest calls the callback of every record of the
  requests map with an error of code LEVEL_DATABASE_NOT_OPEN; then, for every record of the
  iterators map, rejects the \<open>next()\<close> in flight of its handle with that error, if the
  handle has one that still waits (so that the \<open>_next\<close> throws it when resumed), and
  calls \<open>close()\<close> on the handle; both maps are left empty; then it calls \<open>destroy()\<close>
  on the attached proxy stream, if there is one, and ends there with a TypeError, the stream
  still referenced; with no stream attached it calls \<open>close()\<close> on the database set with
  \<open>forward\<close>, if there is one. The log gains exactly these calls, in this order: no
  flush is emitted. A handle with no \<open>next()\<close> in flight that still waits receives no
  error: its waiter is what it was, it is not marked as errored, it is only closed; the
  \<open>_close\<close> of a handle with a \<open>next()\<close> in flight waits for it. When no handle is in
  the iterators map twice and every handle in it exists (\<open>handles_ok\<close>, which holds of
  every state that a guest comes to), the \<open>close()\<close> calls have written one
  iteratorClose frame for each handle that was not already closing and had no
  \<open>next()\<close> in flight, in the order of the map, and have left the rest of each such
  \<open>_close\<close> as a task. Each waiting task, when its turn comes, emits flush and releases
  the keepalive, the maps being empty. When the destroyed stream has finished, the function
  in \<open>kCleanup\<close> drops it, and emits flush once more if the guest has no retry.
\<close>

theorem close_aborts_pending:
  "kRequests (snd (guest_close g)) = IdMap \<and> kIterators (snd (guest_close g)) = IdMap \<and>
   isFlushed (snd (guest_close g)) \<and> kExplicitClose (snd (guest_close g)) \<and>
   kRpcStream (snd (guest_close g)) = kRpcStream g \<and>
   fst (guest_close g) = (if kRpcStream g = None then None else Some TypeError) \<and>
   events (snd (guest_close g)) =
     events g @
     map (\<lambda>req. Callback (req_callback req)
            (Inl (ModuleError ''Aborted on database close()'' ''LEVEL_DATABASE_NOT_OPEN'')))
       (idmap_values (kRequests g)) @
     map Iterator_close (idmap_values (kIterators g)) @
     (case kRpcStream g of Some p \<Rightarrow> [Stream_destroy p]
      | None \<Rightarrow> if kDb g then [Db_close] else []) \<and>
   (\<forall>h \<in> set (idmap_values (kIterators g)). h < length (heap g) \<longrightarrow>
      kErrored (heap (snd (guest_close g)) ! h) = kErrored (heap g ! h) \<and>
      closing (heap (snd (guest_close g)) ! h) \<and>
      pendingClose (heap (snd (guest_close g)) ! h) =
        (pendingClose (heap g ! h) \<or> \<not> closing (heap g ! h) \<and> waiter (heap g ! h) \<noteq> None) \<and>
      (if kCallback (heap g ! h) \<and> waiter (heap g ! h) = Some Pending
       then waiter (heap (snd (guest_close g)) ! h) =
              Some (Rejected (ModuleError ''Aborted on database close()'' ''LEVEL_DATABASE_NOT_OPEN'')) \<and>
            fst (next_resume h (snd (guest_close g))) =
              Throw (ModuleError ''Aborted on database close()'' ''LEVEL_DATABASE_NOT_OPEN'')
       else waiter (heap (snd (guest_close g)) ! h) = waiter (heap g ! h))) \<and>
   (handles_ok g \<longrightarrow>
      kEncode (snd (guest_close g)) =
        kEncode g @
        map (\<lambda>h. F_iteratorClose (ireq_id (kRequest (heap g ! h))))
          (filter (\<lambda>h. \<not> closing (heap g ! h) \<and> waiter (heap g ! h) = None)
             (idmap_values (kIterators g))) \<and>
      tasks (snd (guest_close g)) =
        tasks g @
        map Close_tail
          (filter (\<lambda>h. \<not> closing (heap g ! h) \<and> waiter (heap g ! h) = None)
             (idmap_values (kIterators g)))) \<and>
   events (run dec (replicate n Tick) (snd (guest_close g))) =
     events (snd (guest_close g)) @
     concat (replicate (min n (length (tasks (snd (guest_close g)))))
               ([Emit_flush] @ unref (kRef g))) \<and>
   tasks (run dec (replicate n Tick) (snd (guest_close g))) =
     drop n (tasks (snd (guest_close g))) \<and>
   (kRpcStream g \<noteq> None \<longrightarrow>
      exec dec Finish (snd (guest_close g)) = cleanup (snd (guest_close g)) \<and>
      kRpcStream (cleanup (snd (guest_close g))) = None \<and>
      events (cleanup (snd (guest_close g))) =
        events (snd (guest_close g)) @
        (if kRetry g then [] else [Emit_flush] @ unref (kRef g))) \<and>
   exec dec Close g = snd (guest_close g)"
proof -
  let ?msg = "''Aborted on database close()''" and ?code = "''LEVEL_DATABASE_NOT_OPEN''"
  let ?e = "ModuleError ?msg ?code"
  let ?g1 = "g\<lparr>kExplicitClose := True\<rparr>"
  let ?c = "snd (guest_close g)"
  note c = guest_close_fields(1) [of g]
  have maps: "kRequests ?c = IdMap" "kIterators ?c = IdMap"
    by (simp_all add: c Let_def)
  have fl: "isFlushed ?c"
    using maps by (rule isFlushed_IdMap)
  have st: "kExplicitClose ?c" "kRpcStream ?c = kRpcStream g" "kRef ?c = kRef g"
    "kRetry ?c = kRetry g"
    by (simp_all add: c Let_def)
  have ev: "events ?c =
     events g @
     map (\<lambda>req. Callback (req_callback req) (Inl ?e)) (idmap_values (kRequests g)) @
     map Iterator_close (idmap_values (kIterators g)) @
     (case kRpcStream g of Some p \<Rightarrow> [Stream_destroy p]
      | None \<Rightarrow> if kDb g then [Db_close] else [])"
    by (simp add: c Let_def kAbortRequests_events)
  have hc: "heap ?c = heap (kAbortRequests ?msg ?code ?g1)"
    "kEncode ?c = kEncode (kAbortRequests ?msg ?code ?g1)"
    "tasks ?c = tasks (kAbortRequests ?msg ?code ?g1)"
    by (simp_all add: c Let_def)
  have hp: "kErrored (heap ?c ! h) = kErrored (heap g ! h) \<and>
        closing (heap ?c ! h) \<and>
        pendingClose (heap ?c ! h) =
          (pendingClose (heap g ! h) \<or> \<not> closing (heap g ! h) \<and> waiter (heap g ! h) \<noteq> None) \<and>
        (if kCallback (heap g ! h) \<and> waiter (heap g ! h) = Some Pending
         then waiter (heap ?c ! h) = Some (Rejected ?e) \<and>
              fst (next_resume h ?c) = Throw ?e
         else waiter (heap ?c ! h) = waiter (heap g ! h))"
    if "h \<in> set (idmap_values (kIterators g))" "h < length (heap g)" for h
  proof -
    from that have "h \<in> set (idmap_values (kIterators ?g1))" "h < length (heap ?g1)"
      by simp_all
    from kAbortRequests_heap_same [OF this, of ?msg ?code]
    have 1: "kErrored (heap ?c ! h) = kErrored (heap g ! h)"
      "closing (heap ?c ! h)"
      "pendingClose (heap ?c ! h) =
          (pendingClose (heap g ! h) \<or> \<not> closing (heap g ! h) \<and> waiter (heap g ! h) \<noteq> None)"
      "waiter (heap ?c ! h) =
        (if kCallback (heap g ! h) \<and> waiter (heap g ! h) = Some Pending
         then Some (Rejected ?e) else waiter (heap g ! h))"
      by (simp_all add: hc)
    show ?thesis
    proof (cases "kCallback (heap g ! h) \<and> waiter (heap g ! h) = Some Pending")
      case True
      with 1(4) have "waiter (heap ?c ! h) = Some (Rejected ?e)" by simp
      with next_resume_Rejected [OF this] 1 True show ?thesis by simp
    next
      case False
      with 1 show ?thesis by simp
    qed
  qed
  have fr: "kEncode ?c =
          kEncode g @
          map (\<lambda>h. F_iteratorClose (ireq_id (kRequest (heap g ! h))))
            (filter (\<lambda>h. \<not> closing (heap g ! h) \<and> waiter (heap g ! h) = None)
               (idmap_values (kIterators g))) \<and>
        tasks ?c =
          tasks g @
          map Close_tail
            (filter (\<lambda>h. \<not> closing (heap g ! h) \<and> waiter (heap g ! h) = None)
               (idmap_values (kIterators g)))"
    if "handles_ok g"
  proof -
    from that have "distinct (idmap_values (kIterators g))"
      "\<forall>h \<in> set (idmap_values (kIterators g)). h < length (heap g)"
      by (simp_all add: handles_ok_def)
    then have w: "distinct (idmap_values (kIterators ?g1))"
      "\<forall>h \<in> set (idmap_values (kIterators ?g1)). h < length (heap ?g1)"
      by simp_all
    from kAbortRequests_kEncode [OF w, of ?msg ?code] kAbortRequests_tasks [OF w, of ?msg ?code]
    show ?thesis by (simp add: hc)
  qed
  from ticks_flushed [OF maps, of dec n] st
  have tk: "events (run dec (replicate n Tick) ?c) =
       events ?c @
       concat (replicate (min n (length (tasks ?c))) ([Emit_flush] @ unref (kRef g)))"
    "tasks (run dec (replicate n Tick) ?c) = drop n (tasks ?c)"
    by simp_all
  from cleanup_empty [OF maps] st
  have cl: "kRpcStream (cleanup ?c) = None"
    "events (cleanup ?c) = events ?c @ (if kRetry g then [] else [Emit_flush] @ unref (kRef g))"
    by simp_all
  have fin: "kRpcStream g \<noteq> None \<longrightarrow> exec dec Finish ?c = cleanup ?c"
    by (simp add: exec_def st)
  have ex: "exec dec Close g = ?c"
    by (simp add: exec_def)
  note er = guest_close_fields(2) [of g]
  from maps fl st(1,2) er ev hp fr tk cl fin ex show ?thesis
    by (intro conjI ballI impI) blast+
qed

text \<open>
  Instances. Closing \<open>mixed_guest\<close> fails its three \<open>get\<close>s and the suspended \<open>_next\<close> of
  its first iterator, closes both iterators, the second at once, destroys proxy 0 and ends
  with the TypeError. In full: after the close, the turn of the task, the resumption of the
  \<open>_next\<close>, the turn of the task this leaves and the finish of the destroyed stream,
  flush has been emitted three times. Closing \<open>forwarded_guest\<close> fails its \<open>get\<close> and
  closes the database.
\<close>

theorem close_aborts_pending_witness:
  "kRpcStream mixed_guest = Some 0 \<and> fst (guest_close mixed_guest) = Some TypeError \<and>
   kRpcStream (snd (guest_close mixed_guest)) = Some 0 \<and>
   isFlushed (snd (guest_close mixed_guest)) \<and>
   events (snd (guest_close mixed_guest)) =
     events mixed_guest @
     [Callback 0 (Inl (ModuleError ''Aborted on database close()'' ''LEVEL_DATABASE_NOT_OPEN'')),
      Callback 1 (Inl (ModuleError ''Aborted on database close()'' ''LEVEL_DATABASE_NOT_OPEN'')),
      Callback 2 (Inl (ModuleError ''Aborted on database close()'' ''LEVEL_DATABASE_NOT_OPEN'')),
      Iterator_close 0, Iterator_close 1, Stream_destroy 0] \<and>
   fst (next_resume 0 (snd (guest_close mixed_guest))) =
     Throw (ModuleError ''Aborted on database close()'' ''LEVEL_DATABASE_NOT_OPEN'') \<and>
   pendingClose (heap (snd (guest_close mixed_guest)) ! 0) \<and>
   waiter (heap (snd (guest_close mixed_guest)) ! 1) = None \<and>
   \<not> kErrored (heap (snd (guest_close mixed_guest)) ! 1) \<and>
   kEncode (snd (guest_close mixed_guest)) = kEncode mixed_guest @ [F_iteratorClose 2] \<and>
   tasks (snd (guest_close mixed_guest)) = [Close_tail 1] \<and>
   events (run example_encoding [Tick] (snd (guest_close mixed_guest))) =
     events (snd (guest_close mixed_guest)) @ [Emit_flush, Ref_unref] \<and>
   events (cleanup (snd (guest_close mixed_guest))) =
     events (snd (guest_close mixed_guest)) @ [Emit_flush, Ref_unref] \<and>
   events (run example_encoding [Close, Tick, Resume 0, Tick, Finish] mixed_guest) =
     events mixed_guest @
     [Callback 0 (Inl (ModuleError ''Aborted on database close()'' ''LEVEL_DATABASE_NOT_OPEN'')),
      Callback 1 (Inl (ModuleError ''Aborted on database close()'' ''LEVEL_DATABASE_NOT_OPEN'')),
      Callback 2 (Inl (ModuleError ''Aborted on database close()'' ''LEVEL_DATABASE_NOT_OPEN'')),
      Iterator_close 0, Iterator_close 1, Stream_destroy 0, Emit_flush, Ref_unref,
      Emit_flush, Ref_unref, Emit_flush, Ref_unref] \<and>
   fst (guest_close forwarded_guest) = None \<and>
   events (snd (guest_close forwarded_guest)) =
     events forwarded_guest @
     [Callback 0 (Inl (ModuleError ''Aborted on database close()'' ''LEVEL_DATABASE_NOT_OPEN'')),
      Db_close]"
proof -
  have b: "map req_callback (idmap_values (kRequests mixed_guest)) = [0, 1, 2]"
    "idmap_values (kIterators mixed_guest) = [0, 1]" "kRef mixed_guest = Some (True, True)"
    "length (heap mixed_guest) = 2" "tasks mixed_guest = []"
    "kRpcStream mixed_guest = Some 0" "\<not> kRetry mixed_guest" "handles_ok mixed_guest"
    by code_simp+
  have c: "kCallback (heap mixed_guest ! 0)" "waiter (heap mixed_guest ! 0) = Some Pending"
    "\<not> closing (heap mixed_guest ! 0)" "\<not> pendingClose (heap mixed_guest ! 0)"
    "\<not> kCallback (heap mixed_guest ! 1)" "waiter (heap mixed_guest ! 1) = None"
    "\<not> closing (heap mixed_guest ! 1)" "\<not> kErrored (heap mixed_guest ! 1)"
    "ireq_id (kRequest (heap mixed_guest ! 1)) = 2"
    by code_simp+
  have d: "map (\<lambda>req. Callback (req_callback req) (Inl e)) rs =
           map (\<lambda>p. Callback p (Inl e)) (map req_callback rs)" for e rs
    by simp
  have e: "events (run example_encoding [Close, Tick, Resume 0, Tick, Finish] mixed_guest) =
     events mixed_guest @
     [Callback 0 (Inl (ModuleError ''Aborted on database close()'' ''LEVEL_DATABASE_NOT_OPEN'')),
      Callback 1 (Inl (ModuleError ''Aborted on database close()'' ''LEVEL_DATABASE_NOT_OPEN'')),
      Callback 2 (Inl (ModuleError ''Aborted on database close()'' ''LEVEL_DATABASE_NOT_OPEN'')),
      Iterator_close 0, Iterator_close 1, Stream_destroy 0, Emit_flush, Ref_unref,
      Emit_flush, Ref_unref, Emit_flush, Ref_unref]"
    by code_simp
  from close_aborts_pending [of mixed_guest example_encoding 1] b c
  have 1: "fst (guest_close mixed_guest) = Some TypeError \<and>
   kRpcStream (snd (guest_close mixed_guest)) = Some 0 \<and>
   isFlushed (snd (guest_close mixed_guest)) \<and>
   events (snd (guest_close mixed_guest)) =
     events mixed_guest @
     [Callback 0 (Inl (ModuleError ''Aborted on database close()'' ''LEVEL_DATABASE_NOT_OPEN'')),
      Callback 1 (Inl (ModuleError ''Aborted on database close()'' ''LEVEL_DATABASE_NOT_OPEN'')),
      Callback 2 (Inl (ModuleError ''Aborted on database close()'' ''LEVEL_DATABASE_NOT_OPEN'')),
      Iterator_close 0, Iterator_close 1, Stream_destroy 0] \<and>
   fst (next_resume 0 (snd (guest_close mixed_guest))) =
     Throw (ModuleError ''Aborted on database close()'' ''LEVEL_DATABASE_NOT_OPEN'') \<and>
   pendingClose (heap (snd (guest_close mixed_guest)) ! 0) \<and>
   waiter (heap (snd (guest_close mixed_guest)) ! 1) = None \<and>
   \<not> kErrored (heap (snd (guest_close mixed_guest)) ! 1) \<and>
   kEncode (snd (guest_close mixed_guest)) = kEncode mixed_guest @ [F_iteratorClose 2] \<and>
   tasks (snd (guest_close mixed_guest)) = [Close_tail 1] \<and>
   events (run example_encoding [Tick] (snd (guest_close mixed_guest))) =
     events (snd (guest_close mixed_guest)) @ [Emit_flush, Ref_unref] \<and>
   events (cleanup (snd (guest_close mixed_guest))) =
     events (snd (guest_close mixed_guest)) @ [Emit_flush, Ref_unref]"
    by (simp add: d unref_def del: map_map)
  have f: "map req_callback (idmap_values (kRequests forwarded_guest)) = [0]"
    "idmap_values (kIterators forwarded_guest) = []" "kRpcStream forwarded_guest = None"
    "kDb forwarded_guest"
    by code_simp+
  from close_aborts_pending [of forwarded_guest example_encoding 0] f
  have 2: "fst (guest_close forwarded_guest) = None \<and>
   events (snd (guest_close forwarded_guest)) =
     events forwarded_guest @
     [Callback 0 (Inl (ModuleError ''Aborted on database close()'' ''LEVEL_DATABASE_NOT_OPEN'')),
      Db_close]"
    by (simp add: d del: map_map)
  from b(6) e 1 2 show ?thesis by simp
qed

text \<open>
  C7 as the claim has it fails: closing \<open>seq_guest\<close>, whose iterator has no \<open>_next\<close> in
  flight, calls \<open>close()\<close> on the iterator, which writes the iteratorClose frame, and
  \<open>destroy()\<close> on the stream; no error of code LEVEL_DATABASE_NOT_OPEN goes to the
  iterator, neither then nor when the iterator's \<open>_close\<close> has come to its end and the
  destroyed stream has finished: nothing else is logged but the two flush events, no waiter
  is rejected, and the handle is not marked as errored.
\<close>

theorem idle_iterator_closed_counterexample:
  "idmap_values (kIterators seq_guest) = [0] \<and> events seq_guest = [] \<and>
   waiter (heap seq_guest ! 0) = None \<and>
   fst (guest_close seq_guest) = Some TypeError \<and>
   events (run example_encoding [Close] seq_guest) = [Iterator_close 0, Stream_destroy 0] \<and>
   waiter (heap (run example_encoding [Close] seq_guest) ! 0) = None \<and>
   \<not> kErrored (heap (run example_encoding [Close] seq_guest) ! 0) \<and>
   events (run example_encoding [Close, Tick, Finish] seq_guest) =
     [Iterator_close 0, Stream_destroy 0, Emit_flush, Emit_flush] \<and>
   tasks (run example_encoding [Close, Tick, Finish] seq_guest) = [] \<and>
   waiter (heap (run example_encoding [Close, Tick, Finish] seq_guest) ! 0) = None \<and>
   \<not> kErrored (heap (run example_encoding [Close, Tick, Finish] seq_guest) ! 0)"
  by code_simp

subsection \<open>The limit and the acks\<close>

lemma next_body_drained:
  assumes "h < length (heap g)" "kPending (heap g ! h) = f # fs"
    "error_code (res_error f) = None" "res_data f = Some d"
    "take_entry (ireq_options (kRequest (heap g ! h))) d = (k, v, [])"
  shows "fst (next_body h g) = Entry k v"
    and "ireq_consumed (kRequest (heap (snd (next_body h g)) ! h)) =
           ireq_consumed (kRequest (heap g ! h)) + 1"
    and "kPending (heap (snd (next_body h g)) ! h) = fs"
    and "kEncode (snd (next_body h g)) =
           kEncode g @
           (if enat (ireq_consumed (kRequest (heap g ! h)) + 1) < it_limit (heap g ! h)
            then [F_iteratorAck ((kAckMessage (heap g ! h))
                    \<lparr>ack_consumed := ireq_consumed (kRequest (heap g ! h)) + 1\<rparr>)]
            else [])"
  using assms
  by (simp_all add: next_body_def Let_def modify_modify modify_kWrite modify_def)

lemma next_resume_Resolved:
  "waiter (heap g ! h) = Some Resolved \<Longrightarrow>
   next_resume h g = next_body h (modify h (\<lambda>it. it\<lparr>waiter := None\<rparr>) g)"
  by (simp add: next_resume_def)

lemma next_resume_drained:
  assumes "h < length (heap g)" "waiter (heap g ! h) = Some Resolved"
    "kPending (heap g ! h) = f # fs"
    "error_code (res_error f) = None" "res_data f = Some d"
    "take_entry (ireq_options (kRequest (heap g ! h))) d = (k, v, [])"
  shows "fst (next_resume h g) = Entry k v"
    and "ireq_consumed (kRequest (heap (snd (next_resume h g)) ! h)) =
           ireq_consumed (kRequest (heap g ! h)) + 1"
    and "kPending (heap (snd (next_resume h g)) ! h) = fs"
    and "kEncode (snd (next_resume h g)) =
           kEncode g @
           (if enat (ireq_consumed (kRequest (heap g ! h)) + 1) < it_limit (heap g ! h)
            then [F_iteratorAck ((kAckMessage (heap g ! h))
                    \<lparr>ack_consumed := ireq_consumed (kRequest (heap g ! h)) + 1\<rparr>)]
            else [])"
proof -
  let ?g = "modify h (\<lambda>it. it\<lparr>waiter := None\<rparr>) g"
  have r: "next_resume h g = next_body h ?g"
    using assms(2) by (rule next_resume_Resolved)
  have hh: "heap ?g ! h = (heap g ! h)\<lparr>waiter := None\<rparr>"
    using assms(1) by (simp add: modify_heap_same)
  have b: "h < length (heap ?g)" "kPending (heap ?g ! h) = f # fs"
    "take_entry (ireq_options (kRequest (heap ?g ! h))) d = (k, v, [])"
    using assms(1,3,6) by (simp_all add: hh)
  note nb = next_body_drained [OF b(1,2) assms(4,5) b(3)]
  show "fst (next_resume h g) = Entry k v"
    using nb(1) by (simp add: r)
  show "ireq_consumed (kRequest (heap (snd (next_resume h g)) ! h)) =
           ireq_consumed (kRequest (heap g ! h)) + 1"
    using nb(2) by (simp add: r hh)
  show "kPending (heap (snd (next_resume h g)) ! h) = fs"
    using nb(3) by (simp add: r)
  show "kEncode (snd (next_resume h g)) =
           kEncode g @
           (if enat (ireq_consumed (kRequest (heap g ! h)) + 1) < it_limit (heap g ! h)
            then [F_iteratorAck ((kAckMessage (heap g ! h))
                    \<lparr>ack_consumed := ireq_consumed (kRequest (heap g ! h)) + 1\<rparr>)]
            else [])"
    using nb(4) by (simp add: r hh)
qed

text \<open>
  C5. When the count of consumed entries has reached the limit, or the iterator has
  errored, \<open>_next\<close> returns undefined and changes nothing: no entry is pulled. Below the
  limit, with a message in the queue, \<open>_next\<close> is the body that pulls; with an empty
  queue and no end seen, it is suspended, and when it is resumed after a message has come,
  it is the same body. When the entry pulled is the last of its message (nothing is left in
  \<open>data\<close>), whether \<open>_next\<close> pulls at once or when resumed, the message leaves the
  queue, \<open>consumed\<close> goes up by one, and the guest writes one iteratorAck frame with the
  new count if that count is below the limit, and no frame at all if the count has reached
  the limit.
\<close>

theorem limit_ends_and_ack_omitted:
  "(it_limit (heap g ! h) \<le> enat (ireq_consumed (kRequest (heap g ! h))) \<or> kErrored (heap g ! h)
      \<longrightarrow> iterator_next h g = (Done, g)) \<and>
   (enat (ireq_consumed (kRequest (heap g ! h))) < it_limit (heap g ! h) \<and>
    \<not> kErrored (heap g ! h) \<and> kPending (heap g ! h) \<noteq> []
      \<longrightarrow> iterator_next h g = next_body h g) \<and>
   (enat (ireq_consumed (kRequest (heap g ! h))) < it_limit (heap g ! h) \<and>
    \<not> kErrored (heap g ! h) \<and> \<not> kEnded (heap g ! h) \<and> kPending (heap g ! h) = []
      \<longrightarrow> iterator_next h g =
            (Suspended, modify h (\<lambda>it. it\<lparr>kCallback := True, waiter := Some Pending\<rparr>) g)) \<and>
   (waiter (heap g ! h) = Some Resolved
      \<longrightarrow> next_resume h g = next_body h (modify h (\<lambda>it. it\<lparr>waiter := None\<rparr>) g)) \<and>
   (h < length (heap g) \<and> kPending (heap g ! h) = f # fs \<and> error_code (res_error f) = None \<and>
    res_data f = Some d \<and> take_entry (ireq_options (kRequest (heap g ! h))) d = (k, v, [])
      \<longrightarrow> fst (next_body h g) = Entry k v \<and>
          ireq_consumed (kRequest (heap (snd (next_body h g)) ! h)) =
            ireq_consumed (kRequest (heap g ! h)) + 1 \<and>
          kPending (heap (snd (next_body h g)) ! h) = fs \<and>
          kEncode (snd (next_body h g)) =
            kEncode g @
            (if enat (ireq_consumed (kRequest (heap g ! h)) + 1) < it_limit (heap g ! h)
             then [F_iteratorAck ((kAckMessage (heap g ! h))
                     \<lparr>ack_consumed := ireq_consumed (kRequest (heap g ! h)) + 1\<rparr>)]
             else [])) \<and>
   (h < length (heap g) \<and> waiter (heap g ! h) = Some Resolved \<and>
    kPending (heap g ! h) = f # fs \<and> error_code (res_error f) = None \<and>
    res_data f = Some d \<and> take_entry (ireq_options (kRequest (heap g ! h))) d = (k, v, [])
      \<longrightarrow> fst (next_resume h g) = Entry k v \<and>
          ireq_consumed (kRequest (heap (snd (next_resume h g)) ! h)) =
            ireq_consumed (kRequest (heap g ! h)) + 1 \<and>
          kPending (heap (snd (next_resume h g)) ! h) = fs \<and>
          kEncode (snd (next_resume h g)) =
            kEncode g @
            (if enat (ireq_consumed (kRequest (heap g ! h)) + 1) < it_limit (heap g ! h)
             then [F_iteratorAck ((kAckMessage (heap g ! h))
                     \<lparr>ack_consumed := ireq_consumed (kRequest (heap g ! h)) + 1\<rparr>)]
             else []))"
proof -
  have 1: "it_limit (heap g ! h) \<le> enat (ireq_consumed (kRequest (heap g ! h))) \<or>
      kErrored (heap g ! h) \<longrightarrow> iterator_next h g = (Done, g)"
    by (auto simp: iterator_next_def Let_def)
  have 2: "enat (ireq_consumed (kRequest (heap g ! h))) < it_limit (heap g ! h) \<and>
      \<not> kErrored (heap g ! h) \<and> kPending (heap g ! h) \<noteq> []
      \<longrightarrow> iterator_next h g = next_body h g"
    by (auto simp: iterator_next_def Let_def)
  have 3: "enat (ireq_consumed (kRequest (heap g ! h))) < it_limit (heap g ! h) \<and>
      \<not> kErrored (heap g ! h) \<and> \<not> kEnded (heap g ! h) \<and> kPending (heap g ! h) = []
      \<longrightarrow> iterator_next h g =
            (Suspended, modify h (\<lambda>it. it\<lparr>kCallback := True, waiter := Some Pending\<rparr>) g)"
    by (auto simp: iterator_next_def Let_def)
  have 4: "waiter (heap g ! h) = Some Resolved
      \<longrightarrow> next_resume h g = next_body h (modify h (\<lambda>it. it\<lparr>waiter := None\<rparr>) g)"
    by (simp add: next_resume_Resolved)
  have 5: "fst (next_body h g) = Entry k v \<and>
          ireq_consumed (kRequest (heap (snd (next_body h g)) ! h)) =
            ireq_consumed (kRequest (heap g ! h)) + 1 \<and>
          kPending (heap (snd (next_body h g)) ! h) = fs \<and>
          kEncode (snd (next_body h g)) =
            kEncode g @
            (if enat (ireq_consumed (kRequest (heap g ! h)) + 1) < it_limit (heap g ! h)
             then [F_iteratorAck ((kAckMessage (heap g ! h))
                     \<lparr>ack_consumed := ireq_consumed (kRequest (heap g ! h)) + 1\<rparr>)]
             else [])"
    if "h < length (heap g) \<and> kPending (heap g ! h) = f # fs \<and>
      error_code (res_error f) = None \<and> res_data f = Some d \<and>
      take_entry (ireq_options (kRequest (heap g ! h))) d = (k, v, [])"
  proof -
    from that have b: "h < length (heap g)" "kPending (heap g ! h) = f # fs"
      "error_code (res_error f) = None" "res_data f = Some d"
      "take_entry (ireq_options (kRequest (heap g ! h))) d = (k, v, [])"
      by simp_all
    from next_body_drained [OF b] show ?thesis by blast
  qed
  have 6: "fst (next_resume h g) = Entry k v \<and>
          ireq_consumed (kRequest (heap (snd (next_resume h g)) ! h)) =
            ireq_consumed (kRequest (heap g ! h)) + 1 \<and>
          kPending (heap (snd (next_resume h g)) ! h) = fs \<and>
          kEncode (snd (next_resume h g)) =
            kEncode g @
            (if enat (ireq_consumed (kRequest (heap g ! h)) + 1) < it_limit (heap g ! h)
             then [F_iteratorAck ((kAckMessage (heap g ! h))
                     \<lparr>ack_consumed := ireq_consumed (kRequest (heap g ! h)) + 1\<rparr>)]
             else [])"
    if "h < length (heap g) \<and> waiter (heap g ! h) = Some Resolved \<and>
      kPending (heap g ! h) = f # fs \<and> error_code (res_error f) = None \<and>
      res_data f = Some d \<and> take_entry (ireq_options (kRequest (heap g ! h))) d = (k, v, [])"
  proof -
    from that have b: "h < length (heap g)" "waiter (heap g ! h) = Some Resolved"
      "kPending (heap g ! h) = f # fs"
      "error_code (res_error f) = None" "res_data f = Some d"
      "take_entry (ireq_options (kRequest (heap g ! h))) d = (k, v, [])"
      by simp_all
    from next_resume_drained [OF b] show ?thesis by blast
  qed
  from 1 2 3 4 5 6 show ?thesis by blast
qed

text \<open>
  Instances, with limit 2. With three messages in the queue: the first pull is acknowledged
  with the count 1, the second reaches the limit and is not acknowledged, the third call
  returns undefined and leaves the third message in the queue. With an empty queue: the
  \<open>_next\<close> is suspended; resumed after the first message, it pulls and acknowledges with
  the count 1; the next \<open>_next\<close> is suspended again, and resumed after the second
  message, it pulls, reaches the limit and writes no frame; the call after it returns
  undefined.
\<close>

theorem limit_ends_and_ack_omitted_witness:
  "it_limit (heap limit_guest ! 0) = enat 2 \<and>
   fst (iterator_next 0 limit_guest) = Entry None (Some [7]) \<and>
   kEncode limit_guest1 =
     kEncode limit_guest @ [F_iteratorAck \<lparr>ack_id = 1, ack_seq = 0, ack_consumed = 1\<rparr>] \<and>
   fst (iterator_next 0 limit_guest1) = Entry None (Some [8]) \<and>
   kEncode limit_guest2 = kEncode limit_guest1 \<and>
   kPending (heap limit_guest2 ! 0) = [data_res 9] \<and>
   iterator_next 0 limit_guest2 = (Done, limit_guest2) \<and>
   fst (iterator_next 0 seq_guest) = Suspended \<and>
   it_limit (heap limit_wait_guest ! 0) = enat 2 \<and>
   waiter (heap limit_wait_guest ! 0) = Some Resolved \<and>
   fst (next_resume 0 limit_wait_guest) = Entry None (Some [7]) \<and>
   kEncode (snd (next_resume 0 limit_wait_guest)) =
     kEncode limit_wait_guest @
     [F_iteratorAck \<lparr>ack_id = 1, ack_seq = 0, ack_consumed = 1\<rparr>] \<and>
   waiter (heap limit_wait_guest1 ! 0) = Some Resolved \<and>
   fst (next_resume 0 limit_wait_guest1) = Entry None (Some [8]) \<and>
   kEncode (snd (next_resume 0 limit_wait_guest1)) = kEncode limit_wait_guest1 \<and>
   iterator_next 0 (snd (next_resume 0 limit_wait_guest1)) =
     (Done, snd (next_resume 0 limit_wait_guest1))"
proof -
  have l: "it_limit (heap limit_guest ! 0) = enat 2" by code_simp
  have a0: "enat (ireq_consumed (kRequest (heap limit_guest ! 0))) < it_limit (heap limit_guest ! 0) \<and>
      \<not> kErrored (heap limit_guest ! 0) \<and> kPending (heap limit_guest ! 0) \<noteq> []"
    by code_simp
  have b0: "0 < length (heap limit_guest) \<and>
      kPending (heap limit_guest ! 0) = data_res 7 # [data_res 8, data_res 9] \<and>
      error_code (res_error (data_res 7)) = None \<and> res_data (data_res 7) = Some [[7]] \<and>
      take_entry (ireq_options (kRequest (heap limit_guest ! 0))) [[7]] = (None, Some [7], [])"
    by code_simp
  have c0: "ireq_consumed (kRequest (heap limit_guest ! 0)) = 0"
    "kAckMessage (heap limit_guest ! 0) = \<lparr>ack_id = 1, ack_seq = 0, ack_consumed = 0\<rparr>"
    by code_simp+
  from limit_ends_and_ack_omitted [of limit_guest 0 "data_res 7" "[data_res 8, data_res 9]"
      "[[7]]" None "Some [7]"] a0 b0
  have s1: "fst (iterator_next 0 limit_guest) = Entry None (Some [7])"
    "kEncode limit_guest1 =
       kEncode limit_guest @ [F_iteratorAck \<lparr>ack_id = 1, ack_seq = 0, ack_consumed = 1\<rparr>]"
    by (simp_all add: limit_guest1_def c0 l)
  have a1: "enat (ireq_consumed (kRequest (heap limit_guest1 ! 0))) < it_limit (heap limit_guest1 ! 0) \<and>
      \<not> kErrored (heap limit_guest1 ! 0) \<and> kPending (heap limit_guest1 ! 0) \<noteq> []"
    by code_simp
  have b1: "0 < length (heap limit_guest1) \<and>
      kPending (heap limit_guest1 ! 0) = data_res 8 # [data_res 9] \<and>
      error_code (res_error (data_res 8)) = None \<and> res_data (data_res 8) = Some [[8]] \<and>
      take_entry (ireq_options (kRequest (heap limit_guest1 ! 0))) [[8]] = (None, Some [8], [])"
    by code_simp
  have c1: "ireq_consumed (kRequest (heap limit_guest1 ! 0)) = 1"
    "it_limit (heap limit_guest1 ! 0) = enat 2"
    by code_simp+
  from limit_ends_and_ack_omitted [of limit_guest1 0 "data_res 8" "[data_res 9]"
      "[[8]]" None "Some [8]"] a1 b1
  have s2: "fst (iterator_next 0 limit_guest1) = Entry None (Some [8])"
    "kEncode limit_guest2 = kEncode limit_guest1" "kPending (heap limit_guest2 ! 0) = [data_res 9]"
    by (simp_all add: limit_guest2_def c1)
  have a2: "it_limit (heap limit_guest2 ! 0) \<le> enat (ireq_consumed (kRequest (heap limit_guest2 ! 0)))"
    by code_simp
  from limit_ends_and_ack_omitted [of limit_guest2 0] a2
  have s3: "iterator_next 0 limit_guest2 = (Done, limit_guest2)"
    by simp
  have a3: "enat (ireq_consumed (kRequest (heap seq_guest ! 0))) < it_limit (heap seq_guest ! 0) \<and>
      \<not> kErrored (heap seq_guest ! 0) \<and> \<not> kEnded (heap seq_guest ! 0) \<and>
      kPending (heap seq_guest ! 0) = []"
    by code_simp
  from limit_ends_and_ack_omitted [of seq_guest 0] a3
  have s4: "fst (iterator_next 0 seq_guest) = Suspended"
    by simp
  have b4: "0 < length (heap limit_wait_guest) \<and>
      waiter (heap limit_wait_guest ! 0) = Some Resolved \<and>
      kPending (heap limit_wait_guest ! 0) = data_res 7 # [] \<and>
      error_code (res_error (data_res 7)) = None \<and> res_data (data_res 7) = Some [[7]] \<and>
      take_entry (ireq_options (kRequest (heap limit_wait_guest ! 0))) [[7]] =
        (None, Some [7], [])"
    by code_simp
  have c4: "ireq_consumed (kRequest (heap limit_wait_guest ! 0)) = 0"
    "kAckMessage (heap limit_wait_guest ! 0) = \<lparr>ack_id = 1, ack_seq = 0, ack_consumed = 0\<rparr>"
    "it_limit (heap limit_wait_guest ! 0) = enat 2"
    by code_simp+
  from limit_ends_and_ack_omitted [of limit_wait_guest 0 "data_res 7" "[]"
      "[[7]]" None "Some [7]"] b4
  have "fst (next_resume 0 limit_wait_guest) = Entry None (Some [7]) \<and>
      kEncode (snd (next_resume 0 limit_wait_guest)) =
        kEncode limit_wait_guest @
        (if enat (ireq_consumed (kRequest (heap limit_wait_guest ! 0)) + 1) <
            it_limit (heap limit_wait_guest ! 0)
         then [F_iteratorAck ((kAckMessage (heap limit_wait_guest ! 0))
                 \<lparr>ack_consumed := ireq_consumed (kRequest (heap limit_wait_guest ! 0)) + 1\<rparr>)]
         else [])"
    by blast
  then have s5: "fst (next_resume 0 limit_wait_guest) = Entry None (Some [7])"
    "kEncode (snd (next_resume 0 limit_wait_guest)) =
       kEncode limit_wait_guest @
       [F_iteratorAck \<lparr>ack_id = 1, ack_seq = 0, ack_consumed = 1\<rparr>]"
    by (simp_all add: c4)
  have b5: "0 < length (heap limit_wait_guest1) \<and>
      waiter (heap limit_wait_guest1 ! 0) = Some Resolved \<and>
      kPending (heap limit_wait_guest1 ! 0) = data_res 8 # [] \<and>
      error_code (res_error (data_res 8)) = None \<and> res_data (data_res 8) = Some [[8]] \<and>
      take_entry (ireq_options (kRequest (heap limit_wait_guest1 ! 0))) [[8]] =
        (None, Some [8], [])"
    by code_simp
  have c5: "ireq_consumed (kRequest (heap limit_wait_guest1 ! 0)) = 1"
    "it_limit (heap limit_wait_guest1 ! 0) = enat 2"
    by code_simp+
  from limit_ends_and_ack_omitted [of limit_wait_guest1 0 "data_res 8" "[]"
      "[[8]]" None "Some [8]"] b5
  have "fst (next_resume 0 limit_wait_guest1) = Entry None (Some [8]) \<and>
      kEncode (snd (next_resume 0 limit_wait_guest1)) =
        kEncode limit_wait_guest1 @
        (if enat (ireq_consumed (kRequest (heap limit_wait_guest1 ! 0)) + 1) <
            it_limit (heap limit_wait_guest1 ! 0)
         then [F_iteratorAck ((kAckMessage (heap limit_wait_guest1 ! 0))
                 \<lparr>ack_consumed := ireq_consumed (kRequest (heap limit_wait_guest1 ! 0)) + 1\<rparr>)]
         else [])"
    by blast
  then have s6: "fst (next_resume 0 limit_wait_guest1) = Entry None (Some [8])"
    "kEncode (snd (next_resume 0 limit_wait_guest1)) = kEncode limit_wait_guest1"
    by (simp_all add: c5)
  have a7: "it_limit (heap (snd (next_resume 0 limit_wait_guest1)) ! 0) \<le>
      enat (ireq_consumed (kRequest (heap (snd (next_resume 0 limit_wait_guest1)) ! 0)))"
    by code_simp
  from limit_ends_and_ack_omitted [of "snd (next_resume 0 limit_wait_guest1)" 0] a7
  have s7: "iterator_next 0 (snd (next_resume 0 limit_wait_guest1)) =
     (Done, snd (next_resume 0 limit_wait_guest1))"
    by simp
  from l s1 s2 s3 s4 c4(3) b4 s5 b5 s6 s7 show ?thesis by simp
qed

subsection \<open>Keys under retry\<close>

lemma next_body_bookmark:
  assumes "kRetry g" "h < length (heap g)" "next_body h g = (Entry k v, g')"
  shows "ireq_bookmark (kRequest (heap g' ! h)) = k \<and>
         (\<exists>f fs d. kPending (heap g ! h) = f # fs \<and> error_code (res_error f) = None \<and>
            res_data f = Some d \<and>
            (opt_keys (ireq_options (kRequest (heap g ! h))) \<longrightarrow> k = fst (shift d)))"
proof (cases "kPending (heap g ! h)")
  case Nil
  with assms(3) show ?thesis
    by (simp add: next_body_def Let_def split: if_splits)
next
  case (Cons f fs)
  show ?thesis
  proof (cases "error_code (res_error f)")
    case (Some code)
    with Cons assms(3) show ?thesis
      by (simp add: next_body_def Let_def)
  next
    case None
    show ?thesis
    proof (cases "res_data f")
      case None
      with Cons \<open>error_code (res_error f) = None\<close> assms(3) show ?thesis
        by (simp add: next_body_def Let_def)
    next
      case (Some d)
      obtain key val d2 where
        te: "take_entry (ireq_options (kRequest (heap g ! h))) d = (key, val, d2)"
        by (cases "take_entry (ireq_options (kRequest (heap g ! h))) d") auto
      have kk: "opt_keys (ireq_options (kRequest (heap g ! h))) \<Longrightarrow> key = fst (shift d)"
        using te by (auto simp: take_entry_def Let_def split: prod.splits)
      from Cons Some \<open>error_code (res_error f) = None\<close> te assms
      have "k = key \<and> ireq_bookmark (kRequest (heap g' ! h)) = key"
        by (auto simp: next_body_def Let_def modify_modify modify_kWrite modify_def
            split: if_splits)
      with Cons Some \<open>error_code (res_error f) = None\<close> kk show ?thesis
        by simp
    qed
  qed
qed

lemma constructor_keys:
  "kRetry g \<Longrightarrow>
   opt_keys (ireq_options (kRequest (heap (snd (ManyLevelGuestIterator opts g)) !
     fst (ManyLevelGuestIterator opts g))))"
  by (simp add: ManyLevelGuestIterator_def Let_def modify_def split: prod.splits)

lemma run_keys:
  assumes "h < length (heap (run dec as (ManyLevelGuest True)))"
  shows "opt_keys (ireq_options (kRequest (heap (run dec as (ManyLevelGuest True)) ! h)))"
proof -
  have "guest_rel (ManyLevelGuest True) (run dec as (ManyLevelGuest True))"
    by (rule guest_rel_run)
  moreover have "length (heap (ManyLevelGuest True)) = 0" "kRetry (ManyLevelGuest True)"
    by (simp_all add: ManyLevelGuest_def)
  ultimately show ?thesis
    using assms by (simp add: guest_rel_def)
qed

lemma run_kRetry: "kRetry (run dec as g) = kRetry g"
  using guest_rel_run [of g dec as] by (simp add: guest_rel_def)

lemma next_entry_bookmark:
  assumes "kRetry g" "h < length (heap g)" "opt_keys (ireq_options (kRequest (heap g ! h)))"
    "iterator_next h g = (Entry k v, g') \<or> next_resume h g = (Entry k v, g')"
  shows "ireq_bookmark (kRequest (heap g' ! h)) = k \<and>
         (\<exists>f fs d. kPending (heap g ! h) = f # fs \<and> error_code (res_error f) = None \<and>
            res_data f = Some d \<and> k = fst (shift d))"
  using assms(4)
proof
  assume "iterator_next h g = (Entry k v, g')"
  then have "next_body h g = (Entry k v, g')"
    by (auto simp: iterator_next_def Let_def split: if_splits)
  from next_body_bookmark [OF assms(1,2) this] assms(3) show ?thesis
    by simp
next
  let ?g = "modify h (\<lambda>it. it\<lparr>waiter := None\<rparr>) g"
  assume "next_resume h g = (Entry k v, g')"
  then have nb: "next_body h ?g = (Entry k v, g')"
    by (auto simp: next_resume_def split: option.splits promise.splits)
  have "kRetry ?g" "h < length (heap ?g)"
    using assms(1,2) by simp_all
  from next_body_bookmark [OF this nb] assms(3) show ?thesis
    by (simp add: modify_waiter_read)
qed

text \<open>
  C10. The constructor of an iterator of a guest with retry sets \<open>options.keys\<close>,
  whatever the caller passed; in every state that a guest made with retry can reach, every
  iterator has \<open>keys\<close> set. For such an iterator, every entry that \<open>_next\<close> returns, at
  once or when resumed, has as its key the first element of the data of the message it is
  taken from, and that key is what the record's bookmark holds afterwards.
\<close>

theorem retry_forces_keys:
  "(kRetry g \<longrightarrow>
      opt_keys (ireq_options (kRequest (heap (snd (ManyLevelGuestIterator opts g)) !
        fst (ManyLevelGuestIterator opts g))))) \<and>
   (\<forall>i. i < length (heap (run dec as (ManyLevelGuest True))) \<longrightarrow>
      kRetry (run dec as (ManyLevelGuest True)) \<and>
      opt_keys (ireq_options (kRequest (heap (run dec as (ManyLevelGuest True)) ! i)))) \<and>
   (kRetry g \<and> h < length (heap g) \<and> opt_keys (ireq_options (kRequest (heap g ! h))) \<and>
    (iterator_next h g = (Entry k v, g') \<or> next_resume h g = (Entry k v, g')) \<longrightarrow>
      ireq_bookmark (kRequest (heap g' ! h)) = k \<and>
      (\<exists>f fs d. kPending (heap g ! h) = f # fs \<and> error_code (res_error f) = None \<and>
         res_data f = Some d \<and> k = fst (shift d)))"
proof (intro conjI impI allI)
  assume "kRetry g"
  then show "opt_keys (ireq_options (kRequest (heap (snd (ManyLevelGuestIterator opts g)) !
        fst (ManyLevelGuestIterator opts g))))"
    by (rule constructor_keys)
next
  fix i
  assume "i < length (heap (run dec as (ManyLevelGuest True)))"
  then show "opt_keys (ireq_options (kRequest (heap (run dec as (ManyLevelGuest True)) ! i)))"
    by (rule run_keys)
  show "kRetry (run dec as (ManyLevelGuest True))"
    by (simp add: run_kRetry ManyLevelGuest_def)
next
  assume a: "kRetry g \<and> h < length (heap g) \<and> opt_keys (ireq_options (kRequest (heap g ! h))) \<and>
    (iterator_next h g = (Entry k v, g') \<or> next_resume h g = (Entry k v, g'))"
  then have b: "kRetry g" "h < length (heap g)" "opt_keys (ireq_options (kRequest (heap g ! h)))"
    "iterator_next h g = (Entry k v, g') \<or> next_resume h g = (Entry k v, g')"
    by simp_all
  note nb = next_entry_bookmark [OF b]
  from nb show "ireq_bookmark (kRequest (heap g' ! h)) = k" by simp
  from nb show "\<exists>f fs d. kPending (heap g ! h) = f # fs \<and> error_code (res_error f) = None \<and>
         res_data f = Some d \<and> k = fst (shift d)" by simp
qed

text \<open>
  An instance: the iterator of \<open>keys_guest\<close> was made with \<open>keys\<close> false; it has
  \<open>keys\<close> set, the pull returns the key 5 with the value 6, and the bookmark is 5.
\<close>

theorem retry_forces_keys_witness:
  "\<not> opt_keys example_options \<and> kRetry keys_guest \<and>
   opt_keys (ireq_options (kRequest (heap (snd (ManyLevelGuestIterator example_options keys_guest)) !
     fst (ManyLevelGuestIterator example_options keys_guest)))) \<and>
   opt_keys (ireq_options (kRequest (heap keys_guest ! 0))) \<and>
   fst (iterator_next 0 keys_guest) = Entry (Some [5]) (Some [6]) \<and>
   ireq_bookmark (kRequest (heap (snd (iterator_next 0 keys_guest)) ! 0)) = Some [5]"
proof -
  have a: "\<not> opt_keys example_options" "kRetry keys_guest" "0 < length (heap keys_guest)"
    "fst (iterator_next 0 keys_guest) = Entry (Some [5]) (Some [6])"
    by code_simp+
  have len: "0 < length (heap (run example_encoding
     [Attach None, NewIterator example_options, Frame [2, 1, 0, 5, 6]] (ManyLevelGuest True)))"
    using a(3) by (simp add: keys_guest_def)
  note th = retry_forces_keys [of keys_guest example_options example_encoding
      "[Attach None, NewIterator example_options, Frame [2, 1, 0, 5, 6]]" 0
      "Some [5]" "Some [6]" "snd (iterator_next 0 keys_guest)"]
  from th len have k: "opt_keys (ireq_options (kRequest (heap keys_guest ! 0)))"
    unfolding keys_guest_def by blast
  have e: "iterator_next 0 keys_guest = (Entry (Some [5]) (Some [6]), snd (iterator_next 0 keys_guest))"
    using a(4) by (simp add: prod_eq_iff)
  from th a(2,3) k e
  have "ireq_bookmark (kRequest (heap (snd (iterator_next 0 keys_guest)) ! 0)) = Some [5]"
    by blast
  moreover from th a(2)
  have "opt_keys (ireq_options (kRequest (heap (snd (ManyLevelGuestIterator example_options keys_guest)) !
     fst (ManyLevelGuestIterator example_options keys_guest))))"
    by blast
  ultimately show ?thesis using a k by simp
qed

end
